theory Spec2Isabelle
  imports Main "HOL-Library.Char_ord" "HOL-Library.List_Lexorder"
begin

section \<open>Strings\<close>

text \<open>
  A JavaScript string is modelled as a \<^typ>\<open>string\<close>, one \<^typ>\<open>char\<close> per code unit; this
  covers the ASCII text that refs, tag names and action inputs are made of. A value of type
  \<^typ>\<open>string option\<close> is a \<open>string | null\<close> (or \<open>string | undefined\<close>).
\<close>

definition is_digit :: "char \<Rightarrow> bool" where
  "is_digit c = (c \<in> set ''0123456789'')"

text \<open>The word characters of \<open>\w\<close>.\<close>

definition is_word :: "char \<Rightarrow> bool" where
  "is_word c =
     (c \<in> set ''abcdefghijklmnopqrstuvwxyzABCDEFGHIJKLMNOPQRSTUVWXYZ0123456789_'')"

text \<open>The characters that \<open>.\<close> does not match in a regular expression without the \<open>s\<close> flag.\<close>

definition line_terminator :: "char \<Rightarrow> bool" where
  "line_terminator c = (c = CHR 0x0A \<or> c = CHR 0x0D)"

text \<open>\<open>String.prototype.split\<close> with a separator of one character.\<close>

fun split :: "char \<Rightarrow> string \<Rightarrow> string list" where
  "split sep [] = [[]]"
| "split sep (c # s) =
     (if c = sep then [] # split sep s
      else (case split sep s of [] \<Rightarrow> [[c]] | w # ws \<Rightarrow> (c # w) # ws))"

text \<open>\<open>Array.prototype.join\<close>.\<close>

fun join :: "string \<Rightarrow> string list \<Rightarrow> string" where
  "join sep [] = []"
| "join sep [w] = w"
| "join sep (w # ws) = w @ sep @ join sep ws"

definition starts_with :: "string \<Rightarrow> string \<Rightarrow> bool" where
  "starts_with p s = (take (length p) s = p)"

definition ends_with :: "string \<Rightarrow> string \<Rightarrow> bool" where
  "ends_with suf s = (length suf \<le> length s \<and> drop (length s - length suf) s = suf)"

text \<open>\<open>String.prototype.includes\<close>.\<close>

fun str_includes :: "string \<Rightarrow> string \<Rightarrow> bool" where
  "str_includes p [] = (p = [])"
| "str_includes p (c # s) = (starts_with p (c # s) \<or> str_includes p s)"

text \<open>
  The first place where a pattern matches: \<open>find_split P s\<close> is the shortest \<open>u\<close> with
  \<open>s = u @ v\<close> and \<open>P v\<close>, together with \<open>v\<close>.
\<close>

fun find_split :: "(string \<Rightarrow> bool) \<Rightarrow> string \<Rightarrow> (string \<times> string) option" where
  "find_split P [] = (if P [] then Some ([], []) else None)"
| "find_split P (c # s) =
     (if P (c # s) then Some ([], c # s)
      else map_option (\<lambda>(u, v). (c # u, v)) (find_split P s))"

text \<open>\<open>s.replace(p, '')\<close> for a string pattern \<open>p\<close>: the first occurrence is removed.\<close>

definition remove_first :: "string \<Rightarrow> string \<Rightarrow> string" where
  "remove_first p s =
     (case find_split (starts_with p) s of
        None \<Rightarrow> s
      | Some (u, v) \<Rightarrow> u @ drop (length p) v)"

text \<open>\<open>/true/i.test(s)\<close>.\<close>

definition true_here :: "string \<Rightarrow> bool" where
  "true_here s =
     (case s of
        a # b # c # d # _ \<Rightarrow>
          a \<in> set ''tT'' \<and> b \<in> set ''rR'' \<and> c \<in> set ''uU'' \<and> d \<in> set ''eE''
      | _ \<Rightarrow> False)"

definition test_true :: "string \<Rightarrow> bool" where
  "test_true s = (find_split true_here s \<noteq> None)"

section \<open>VersionFormatter: convertVersionFormat (lines 11-25)\<close>

text \<open>
  The match of \<open>/^(.*?)(\d+)(?:\.(\d+))?(?:\.(\d+))?(.*)$/\<close>. The last group takes whatever
  is left, so no choice is ever revised: the lazy prefix stops at the first digit, every
  \<open>\d+\<close> takes all the digits it finds, and an optional group is taken whenever a dot and a
  digit follow. Neither \<open>.*?\<close> nor \<open>.*\<close> crosses a line terminator and \<open>$\<close> is the end of
  the string, so a string with a line terminator, or without a digit, has no match.
\<close>

record version_match =
  vm_prefix :: string
  vm_major :: string
  vm_minor :: "string option"
  vm_patch :: "string option"
  vm_suffix :: string

definition opt_group :: "string \<Rightarrow> string option \<times> string" where
  "opt_group s =
     (case s of
        [] \<Rightarrow> (None, s)
      | c # r \<Rightarrow>
          if c = CHR ''.'' \<and> takeWhile is_digit r \<noteq> []
          then (Some (takeWhile is_digit r), dropWhile is_digit r)
          else (None, s))"

definition match_version :: "string \<Rightarrow> version_match option" where
  "match_version tag =
     (let rest = dropWhile (\<lambda>c. \<not> is_digit c) tag in
      if (\<exists>c \<in> set tag. line_terminator c) \<or> rest = [] then None
      else
        (let (mi, r2) = opt_group (dropWhile is_digit rest);
             (pa, r3) = opt_group r2
         in Some \<lparr>vm_prefix = takeWhile (\<lambda>c. \<not> is_digit c) tag,
                   vm_major = takeWhile is_digit rest,
                   vm_minor = mi, vm_patch = pa, vm_suffix = r3\<rparr>))"

text \<open>
  Line 22, \<open>versionMap[versionItem] || ''\<close>, with the defaults \<open>minor = "0"\<close>, \<open>patch = "0"\<close>
  of line 18. An item that names a property every object inherits (\<open>constructor\<close>,
  \<open>toString\<close>, ...) is outside the model.
\<close>

definition versionItem :: "version_match \<Rightarrow> string \<Rightarrow> string" where
  "versionItem m item =
     (if item = ''MAJOR'' then vm_major m
      else if item = ''MINOR'' then (case vm_minor m of None \<Rightarrow> ''0'' | Some d \<Rightarrow> d)
      else if item = ''PATCH'' then (case vm_patch m of None \<Rightarrow> ''0'' | Some d \<Rightarrow> d)
      else [])"

text \<open>
  The second parameter has type \<open>false | string\<close>; \<open>false\<close> and the empty string take the
  same branch of line 12, and the model writes both as \<open>[]\<close>.
\<close>

definition convertVersionFormat :: "string \<Rightarrow> string \<Rightarrow> string" where
  "convertVersionFormat tag customVersionFormat =
     (if customVersionFormat = [] then tag
      else
        (case match_version tag of
           None \<Rightarrow> []
         | Some m \<Rightarrow>
             vm_prefix m
               @ join ''.'' (map (versionItem m) (split CHR ''.'' customVersionFormat))
               @ vm_suffix m))"

text \<open>
  What the round-trip law asks of a tag: it matches the pattern, and the numeric components
  found in it are exactly those the format names.
\<close>

definition matches_format :: "string \<Rightarrow> string \<Rightarrow> bool" where
  "matches_format t F =
     (case match_version t of
        None \<Rightarrow> False
      | Some m \<Rightarrow>
          (vm_minor m \<noteq> None) = (''MINOR'' \<in> set (split CHR ''.'' F)) \<and>
          (vm_patch m \<noteq> None) = (''PATCH'' \<in> set (split CHR ''.'' F)))"

text \<open>Two notions for stating what a match looks like.\<close>

definition no_lead_digit :: "string \<Rightarrow> bool" where
  "no_lead_digit s = (case s of [] \<Rightarrow> True | c # _ \<Rightarrow> \<not> is_digit c)"

definition dotted :: "string option \<Rightarrow> string" where
  "dotted g = (case g of None \<Rightarrow> [] | Some d \<Rightarrow> CHR ''.'' # d)"

section \<open>PreReleaseIdentifierNormalizer: removeDotFromPreReleaseIdentifier (lines 27-51)\<close>

datatype dot_mode = Remove | Add

text \<open>
  \<open>appendToPreReleaseTag\<close> is pasted into the source of a regular expression. The model
  covers the identifiers that stand for themselves there (no metacharacter); for any other
  the result is \<open>None\<close>.
\<close>

definition re_meta :: "char \<Rightarrow> bool" where
  "re_meta c = (c \<in> set [CHR 0x5C, CHR ''^'', CHR ''$'', CHR ''.'', CHR ''*'', CHR ''+'',
     CHR ''?'', CHR ''('', CHR '')'', CHR ''['', CHR '']'', CHR ''{'', CHR ''}'', CHR ''|''])"

text \<open>
  \<open>(-X)(\w+)\<close> matches at \<open>s\<close>: the text \<open>-X\<close> and then a word character. \<open>(-X)\.(\w+)\<close>
  asks for a dot in between.
\<close>

definition add_regex_here :: "string \<Rightarrow> string \<Rightarrow> bool" where
  "add_regex_here X s =
     (starts_with (CHR ''-'' # X) s \<and>
      (case drop (Suc (length X)) s of [] \<Rightarrow> False | c # _ \<Rightarrow> is_word c))"

definition remove_regex_here :: "string \<Rightarrow> string \<Rightarrow> bool" where
  "remove_regex_here X s =
     (starts_with (CHR ''-'' # X @ ''.'') s \<and>
      (case drop (Suc (Suc (length X))) s of [] \<Rightarrow> False | c # _ \<Rightarrow> is_word c))"

text \<open>Lines 47-50: \<open>tag.replace(/(-X)\.(\w+)/, '$1$2')\<close>.\<close>

definition remove_dot :: "string \<Rightarrow> string \<Rightarrow> string" where
  "remove_dot tag X =
     (case find_split (remove_regex_here X) tag of
        None \<Rightarrow> tag
      | Some (u, v) \<Rightarrow>
          (let g1 = CHR ''-'' # X;
               after = drop (Suc (Suc (length X))) v;
               g2 = takeWhile is_word after
           in u @ g1 @ g2 @ dropWhile is_word after))"

text \<open>
  Lines 32-46 and then, when they return nothing, lines 47-50: in \<open>add\<close> mode a tag in which
  \<open>(-X)(\w+)\<close> finds no match goes on to the replacement of the \<open>remove\<close> mode.
\<close>

definition removeDotFromPreReleaseIdentifier ::
  "string \<Rightarrow> string \<Rightarrow> dot_mode \<Rightarrow> string option" where
  "removeDotFromPreReleaseIdentifier tag appendToPreReleaseTag removeDot =
     (if \<exists>c \<in> set appendToPreReleaseTag. re_meta c then None
      else
        (case (if removeDot = Add then find_split (add_regex_here appendToPreReleaseTag) tag
               else None) of
           Some (u, v) \<Rightarrow>
             (let g1 = CHR ''-'' # appendToPreReleaseTag;
                  after = drop (Suc (length appendToPreReleaseTag)) v;
                  g2 = takeWhile is_word after
              in if starts_with ''.'' g2 then Some tag
                 else Some (u @ g1 @ ''.'' @ g2 @ dropWhile is_word after))
         | None \<Rightarrow> Some (remove_dot tag appendToPreReleaseTag)))"

section \<open>Regular expressions given by the operator\<close>

text \<open>
  \<open>release_branches\<close>, \<open>pre_release_branches\<close>, \<open>tag_prefix\<close> and the pre-release
  identifier are handed to \<open>RegExp\<close> as source text. The model covers the sources built
  from literal characters, \<open>.\<close> and a \<open>*\<close> after either, which includes the patterns that
  \<open>action.yml\<close> gives as examples (\<open>master\<close>, \<open>.*\<close>, \<open>release.*\<close>, \<open>hotfix.*\<close>); \<open>compile\<close>
  returns \<open>None\<close> for any other source, whether JavaScript accepts it or throws.
\<close>

datatype re_atom = Lit char | Dot

datatype re_item = One re_atom | Star re_atom

fun compile :: "string \<Rightarrow> re_item list option" where
  "compile [] = Some []"
| "compile (c # s) =
     (if re_meta c \<and> c \<noteq> CHR ''.'' then None
      else
        (case s of
           [] \<Rightarrow> Some [One (if c = CHR ''.'' then Dot else Lit c)]
         | d # s' \<Rightarrow>
             if d = CHR ''*''
             then map_option ((#) (Star (if c = CHR ''.'' then Dot else Lit c))) (compile s')
             else map_option ((#) (One (if c = CHR ''.'' then Dot else Lit c))) (compile s)))"

definition atom_ok :: "re_atom \<Rightarrow> char \<Rightarrow> bool" where
  "atom_ok a c = (case a of Lit d \<Rightarrow> c = d | Dot \<Rightarrow> \<not> line_terminator c)"

text \<open>
  A match that starts at the head of the string, found the way a backtracking matcher finds
  it (a star first takes all it can and gives back one character at a time); the result is
  the text after the match.
\<close>

fun match_here :: "re_item list \<Rightarrow> string \<Rightarrow> string option" where
  "match_here [] s = Some s"
| "match_here (One a # r) [] = None"
| "match_here (One a # r) (c # s) = (if atom_ok a c then match_here r s else None)"
| "match_here (Star a # r) [] = match_here r []"
| "match_here (Star a # r) (c # s) =
     (if atom_ok a c
      then (case match_here (Star a # r) s of
              Some rest \<Rightarrow> Some rest
            | None \<Rightarrow> match_here r (c # s))
      else match_here r (c # s))"

text \<open>\<open>s.match(pattern)\<close> is truthy: the pattern matches somewhere in \<open>s\<close>.\<close>

fun search :: "re_item list \<Rightarrow> string \<Rightarrow> bool" where
  "search r [] = (match_here r [] \<noteq> None)"
| "search r (c # s) = (match_here r (c # s) \<noteq> None \<or> search r s)"

text \<open>
  \<open>prefixRegex\<close> is \<open>new RegExp(`^${tagPrefix}`)\<close>: the compiled prefix, matched at the head
  of the string only. \<open>test_prefix\<close> is \<open>prefixRegex.test(s)\<close> and \<open>strip_prefix\<close> is
  \<open>s.replace(prefixRegex, '')\<close>.
\<close>

definition test_prefix :: "re_item list \<Rightarrow> string \<Rightarrow> bool" where
  "test_prefix prefixRegex s = (match_here prefixRegex s \<noteq> None)"

definition strip_prefix :: "re_item list \<Rightarrow> string \<Rightarrow> string" where
  "strip_prefix prefixRegex s =
     (case match_here prefixRegex s of None \<Rightarrow> s | Some rest \<Rightarrow> rest)"

text \<open>
  The whole string is a match of the pattern: the reading of a pattern that the
  specification gives for branch patterns. The code never computes it.
\<close>

fun whole_match :: "re_item list \<Rightarrow> string \<Rightarrow> bool" where
  "whole_match [] s = (s = [])"
| "whole_match (One a # r) [] = False"
| "whole_match (One a # r) (c # s) = (atom_ok a c \<and> whole_match r s)"
| "whole_match (Star a # r) [] = whole_match r []"
| "whole_match (Star a # r) (c # s) =
     (whole_match r (c # s) \<or> (atom_ok a c \<and> whole_match (Star a # r) s))"

section \<open>What ends a run before its last statement\<close>

text \<open>
  \<open>Unsupported_pattern\<close>: a pattern outside the modelled fragment reached \<open>RegExp\<close>.
  \<open>TypeError\<close>: \<open>gte\<close> of the semver package was given a string that is no version
  and threw.
\<close>

datatype abort = Unsupported_pattern | TypeError

section \<open>BranchClassifier (lines 104-110 and 259-267)\<close>

definition getBranchFromRef :: "string \<Rightarrow> string" where
  "getBranchFromRef ref = remove_first ''refs/heads/'' ref"

definition isPr :: "string \<Rightarrow> bool" where
  "isPr ref = str_includes ''refs/pull/'' ref"

text \<open>\<open>currentBranch.match(branch)\<close> for one entry of a list.\<close>

definition entry_matches :: "string \<Rightarrow> string \<Rightarrow> abort + bool" where
  "entry_matches branch currentBranch =
     (case compile branch of
        None \<Rightarrow> Inl Unsupported_pattern
      | Some r \<Rightarrow> Inr (search r currentBranch))"

text \<open>\<open>entries.some((branch) => currentBranch.match(branch))\<close>: it stops at the first match.\<close>

fun some_match :: "string list \<Rightarrow> string \<Rightarrow> abort + bool" where
  "some_match [] currentBranch = Inr False"
| "some_match (branch # rest) currentBranch =
     (case entry_matches branch currentBranch of
        Inl e \<Rightarrow> Inl e
      | Inr True \<Rightarrow> Inr True
      | Inr False \<Rightarrow> some_match rest currentBranch)"

text \<open>Lines 260-262 for \<open>release_branches\<close>, lines 263-265 for \<open>pre_release_branches\<close>.\<close>

definition branch_in :: "string \<Rightarrow> string \<Rightarrow> abort + bool" where
  "branch_in branches ref = some_match (split CHR '','' branches) (getBranchFromRef ref)"

text \<open>Line 267.\<close>

definition isPrerelease :: "bool \<Rightarrow> bool \<Rightarrow> bool \<Rightarrow> bool" where
  "isPrerelease isReleaseBranch isPullRequest isPreReleaseBranch =
     (\<not> isReleaseBranch \<and> \<not> isPullRequest \<and> isPreReleaseBranch)"

text \<open>Lines 271-273: every character outside \<open>[a-zA-Z0-9-]\<close> becomes a hyphen.\<close>

definition is_alnum_hyphen :: "char \<Rightarrow> bool" where
  "is_alnum_hyphen c =
     (c \<in> set ''abcdefghijklmnopqrstuvwxyzABCDEFGHIJKLMNOPQRSTUVWXYZ0123456789-'')"

definition sanitize :: "string \<Rightarrow> string" where
  "sanitize s = map (\<lambda>c. if is_alnum_hyphen c then c else CHR ''-'') s"

section \<open>The semver package\<close>

text \<open>
  Modelled from the spec: the functions \<open>valid\<close>, \<open>parse\<close>, \<open>prerelease\<close>, \<open>rcompare\<close> and
  \<open>gte\<close> are imported from the semver package, which is not part of the repository's
  sources. They are written here after the specification's data model (a version is
  \<open>major.minor.patch\<close> with an optional sequence of dot-separated pre-release
  identifiers) and its precedence rules (numeric comparison of the triple, a release above
  each of its pre-releases, pre-releases compared identifier by identifier), with the
  grammar of Semantic Versioning 2.0.0 and the package's optional leading \<open>v\<close>. The
  package's bounds on length and on the size of numbers are left out; strings are compared
  by code unit, numbers exactly.
\<close>

datatype ident = Num nat | Alpha string

record semver =
  sv_major :: nat
  sv_minor :: nat
  sv_patch :: nat
  sv_prerelease :: "ident list"
  sv_version :: string

definition digit_value :: "char \<Rightarrow> nat" where
  "digit_value c = of_char c - 48"

definition number_of :: "string \<Rightarrow> nat" where
  "number_of s = foldl (\<lambda>n c. 10 * n + digit_value c) 0 s"

text \<open>\<open>[0-9]+\<close>, and \<open>0|[1-9]\d*\<close>.\<close>

definition numeric :: "string \<Rightarrow> bool" where
  "numeric s = (s \<noteq> [] \<and> list_all is_digit s)"

definition numeric_identifier :: "string \<Rightarrow> bool" where
  "numeric_identifier s = (numeric s \<and> (s = ''0'' \<or> hd s \<noteq> CHR ''0''))"

definition prerelease_identifier :: "string \<Rightarrow> bool" where
  "prerelease_identifier s =
     (s \<noteq> [] \<and> list_all is_alnum_hyphen s \<and> (if numeric s then numeric_identifier s else True))"

definition build_identifier :: "string \<Rightarrow> bool" where
  "build_identifier s = (s \<noteq> [] \<and> list_all is_alnum_hyphen s)"

definition to_ident :: "string \<Rightarrow> ident" where
  "to_ident s = (if numeric s then Num (number_of s) else Alpha s)"

text \<open>The text before the first occurrence of a character, and the text after it, if any.\<close>

definition cut :: "char \<Rightarrow> string \<Rightarrow> string \<times> string option" where
  "cut sep s =
     (takeWhile (\<lambda>c. c \<noteq> sep) s,
      case dropWhile (\<lambda>c. c \<noteq> sep) s of [] \<Rightarrow> None | _ # r \<Rightarrow> Some r)"

definition parse :: "string \<Rightarrow> semver option" where
  "parse v =
     (let v1 = (case v of [] \<Rightarrow> [] | c # r \<Rightarrow> if c = CHR ''v'' then r else v);
          (core_pre, build) = cut CHR ''+'' v1;
          (core, pre) = cut CHR ''-'' core_pre;
          nums = split CHR ''.'' core;
          pre_ids = (case pre of None \<Rightarrow> [] | Some p \<Rightarrow> split CHR ''.'' p);
          build_ids = (case build of None \<Rightarrow> [] | Some b \<Rightarrow> split CHR ''.'' b)
      in if length nums = 3 \<and> list_all numeric_identifier nums
            \<and> list_all prerelease_identifier pre_ids \<and> list_all build_identifier build_ids
         then Some \<lparr>sv_major = number_of (nums ! 0), sv_minor = number_of (nums ! 1),
                     sv_patch = number_of (nums ! 2), sv_prerelease = map to_ident pre_ids,
                     sv_version = core_pre\<rparr>
         else None)"

definition valid :: "string \<Rightarrow> bool" where
  "valid v = (parse v \<noteq> None)"

text \<open>\<open>prerelease(v)\<close> is truthy: \<open>v\<close> is a version with a pre-release component.\<close>

definition prerelease :: "string \<Rightarrow> bool" where
  "prerelease v = (case parse v of None \<Rightarrow> False | Some x \<Rightarrow> sv_prerelease x \<noteq> [])"

text \<open>The text of the pre-release component of a version, empty when it has none.\<close>

definition prerelease_text :: "string \<Rightarrow> string" where
  "prerelease_text v =
     (case parse v of
        None \<Rightarrow> []
      | Some x \<Rightarrow> (case snd (cut CHR ''-'' (sv_version x)) of None \<Rightarrow> [] | Some p \<Rightarrow> p))"

definition compareNumbers :: "nat \<Rightarrow> nat \<Rightarrow> int" where
  "compareNumbers a b = (if a = b then 0 else if a < b then - 1 else 1)"

fun compareIdentifiers :: "ident \<Rightarrow> ident \<Rightarrow> int" where
  "compareIdentifiers (Num a) (Num b) = compareNumbers a b"
| "compareIdentifiers (Num a) (Alpha b) = - 1"
| "compareIdentifiers (Alpha a) (Num b) = 1"
| "compareIdentifiers (Alpha a) (Alpha b) = (if a = b then 0 else if a < b then - 1 else 1)"

definition compareMain :: "semver \<Rightarrow> semver \<Rightarrow> int" where
  "compareMain x y =
     (if compareNumbers (sv_major x) (sv_major y) \<noteq> 0
      then compareNumbers (sv_major x) (sv_major y)
      else if compareNumbers (sv_minor x) (sv_minor y) \<noteq> 0
      then compareNumbers (sv_minor x) (sv_minor y)
      else compareNumbers (sv_patch x) (sv_patch y))"

fun compareIdentifierLists :: "ident list \<Rightarrow> ident list \<Rightarrow> int" where
  "compareIdentifierLists [] [] = 0"
| "compareIdentifierLists [] (b # bs) = - 1"
| "compareIdentifierLists (a # as) [] = 1"
| "compareIdentifierLists (a # as) (b # bs) =
     (if a = b then compareIdentifierLists as bs else compareIdentifiers a b)"

definition comparePre :: "semver \<Rightarrow> semver \<Rightarrow> int" where
  "comparePre x y =
     (if sv_prerelease x \<noteq> [] \<and> sv_prerelease y = [] then - 1
      else if sv_prerelease x = [] \<and> sv_prerelease y \<noteq> [] then 1
      else if sv_prerelease x = [] \<and> sv_prerelease y = [] then 0
      else compareIdentifierLists (sv_prerelease x) (sv_prerelease y))"

definition compare :: "semver \<Rightarrow> semver \<Rightarrow> int" where
  "compare x y = (if compareMain x y \<noteq> 0 then compareMain x y else comparePre x y)"

text \<open>\<open>gte(a, b)\<close>; it throws when either string is not a version.\<close>

definition gte :: "string \<Rightarrow> string \<Rightarrow> abort + bool" where
  "gte a b =
     (case (parse a, parse b) of
        (Some x, Some y) \<Rightarrow> Inr (0 \<le> compare x y)
      | _ \<Rightarrow> Inl TypeError)"

section \<open>Tags and the external collaborators\<close>

text \<open>A tag as \<open>listTags\<close> returns it: its name and \<open>commit.sha\<close>.\<close>

record tag =
  name :: string
  sha :: string

record commit =
  message :: string
  hash :: string

text \<open>
  The repository API (\<open>listTags\<close>, \<open>compareCommits\<close>, and \<open>createTag\<close>, which a run
  records in \<open>created\<close>), the commit analyser, the notes generator and \<open>inc\<close> of the semver
  package are parameters of a run. The release rules reach the analyser and the generator
  only, so both take the raw \<open>custom_release_rules\<close> input here.
\<close>

record externals =
  listTags :: "bool \<Rightarrow> tag list"
  compareCommits :: "string \<Rightarrow> string \<Rightarrow> commit list"
  analyzeCommits :: "string \<Rightarrow> commit list \<Rightarrow> string option"
  generateNotes :: "string \<Rightarrow> commit list \<Rightarrow> string \<Rightarrow> string \<Rightarrow> string \<Rightarrow> string"
  semver_inc :: "semver \<Rightarrow> string option \<Rightarrow> string \<Rightarrow> string option"

section \<open>TagCatalog: getValidTags (lines 53-88)\<close>

text \<open>
  \<open>Array.prototype.sort\<close> with a comparison function: a stable sort that puts \<open>a\<close> before
  \<open>b\<close> when \<open>cmp a b \<le> 0\<close>.
\<close>

fun insert_sorted :: "('a \<Rightarrow> 'a \<Rightarrow> int) \<Rightarrow> 'a \<Rightarrow> 'a list \<Rightarrow> 'a list" where
  "insert_sorted cmp x [] = [x]"
| "insert_sorted cmp x (y # ys) =
     (if cmp x y \<le> 0 then x # y # ys else y # insert_sorted cmp x ys)"

definition sort_with :: "('a \<Rightarrow> 'a \<Rightarrow> int) \<Rightarrow> 'a list \<Rightarrow> 'a list" where
  "sort_with cmp xs = foldr (insert_sorted cmp) xs []"

text \<open>
  Lines 81-83: \<open>rcompare(a, b)\<close> is \<open>compare(b, a)\<close>. Both names have passed \<open>valid\<close> in the
  filter of lines 77-80, so the last case is never reached in the sort.
\<close>

definition tag_rcompare :: "re_item list \<Rightarrow> tag \<Rightarrow> tag \<Rightarrow> int" where
  "tag_rcompare prefixRegex a b =
     (case (parse (strip_prefix prefixRegex (name a)), parse (strip_prefix prefixRegex (name b))) of
        (Some x, Some y) \<Rightarrow> compare y x
      | _ \<Rightarrow> 0)"

text \<open>Lines 77-80.\<close>

definition valid_tag :: "re_item list \<Rightarrow> tag \<Rightarrow> bool" where
  "valid_tag prefixRegex t =
     (test_prefix prefixRegex (name t) \<and> valid (strip_prefix prefixRegex (name t)))"

definition getValidTags :: "re_item list \<Rightarrow> bool \<Rightarrow> string \<Rightarrow> externals \<Rightarrow> tag list" where
  "getValidTags prefixRegex shouldFetchAllTags isCustomVersionFormat ext =
     (let tags = listTags ext shouldFetchAllTags;
          tags' = (if isCustomVersionFormat \<noteq> []
                   then map (\<lambda>t. t\<lparr>name := convertVersionFormat (name t) ''MAJOR.MINOR.PATCH''\<rparr>) tags
                   else tags)
      in sort_with (tag_rcompare prefixRegex) (filter (valid_tag prefixRegex) tags'))"

text \<open>
  The order of two tags by the precedence of their versions: \<open>not_below\<close> allows a tie,
  \<open>above\<close> does not.
\<close>

definition version_of :: "re_item list \<Rightarrow> tag \<Rightarrow> semver option" where
  "version_of prefixRegex t = parse (strip_prefix prefixRegex (name t))"

definition not_below :: "re_item list \<Rightarrow> tag \<Rightarrow> tag \<Rightarrow> bool" where
  "not_below prefixRegex a b =
     (case (version_of prefixRegex a, version_of prefixRegex b) of
        (Some x, Some y) \<Rightarrow> 0 \<le> compare x y
      | _ \<Rightarrow> False)"

definition above :: "re_item list \<Rightarrow> tag \<Rightarrow> tag \<Rightarrow> bool" where
  "above prefixRegex a b =
     (case (version_of prefixRegex a, version_of prefixRegex b) of
        (Some x, Some y) \<Rightarrow> 0 < compare x y
      | _ \<Rightarrow> False)"

text \<open>Lines 90-102.\<close>

definition getCommits :: "externals \<Rightarrow> string \<Rightarrow> string \<Rightarrow> commit list" where
  "getCommits ext baseRef headRef = filter (\<lambda>c. message c \<noteq> []) (compareCommits ext baseRef headRef)"

section \<open>PreviousVersionSelector (lines 112-139)\<close>

text \<open>
  \<open>find\<close> returns one of the objects of the array, and \<open>main\<close> later assigns to a field of
  the object it got. An object of the catalog is therefore named by its position;
  \<open>Synthetic\<close> is the object that \<open>getLatestTag\<close> creates when it finds none.
\<close>

datatype tagref = Entry nat | Synthetic

record store =
  entries :: "tag list"
  fallback :: tag

fun find_index :: "('a \<Rightarrow> bool) \<Rightarrow> 'a list \<Rightarrow> nat option" where
  "find_index P [] = None"
| "find_index P (x # xs) = (if P x then Some 0 else map_option Suc (find_index P xs))"

definition deref :: "store \<Rightarrow> tagref \<Rightarrow> tag" where
  "deref st r = (case r of Entry i \<Rightarrow> entries st ! i | Synthetic \<Rightarrow> fallback st)"

definition set_name :: "store \<Rightarrow> tagref \<Rightarrow> string \<Rightarrow> store" where
  "set_name st r n =
     (case r of
        Entry i \<Rightarrow> st\<lparr>entries := (entries st)[i := (entries st ! i)\<lparr>name := n\<rparr>]\<rparr>
      | Synthetic \<Rightarrow> st\<lparr>fallback := (fallback st)\<lparr>name := n\<rparr>\<rparr>)"

definition synthetic_tag :: "string \<Rightarrow> tag" where
  "synthetic_tag tagPrefix = \<lparr>name = tagPrefix @ ''0.0.0'', sha = ''HEAD''\<rparr>"

definition release_tag :: "re_item list \<Rightarrow> tag \<Rightarrow> bool" where
  "release_tag prefixRegex t =
     (test_prefix prefixRegex (name t) \<and> \<not> prerelease (strip_prefix prefixRegex (name t)))"

definition getLatestTag :: "tag list \<Rightarrow> re_item list \<Rightarrow> tagref" where
  "getLatestTag tags prefixRegex =
     (case find_index (release_tag prefixRegex) tags of
        Some i \<Rightarrow> Entry i
      | None \<Rightarrow> Synthetic)"

text \<open>
  Lines 136-138. The identifier is compiled when \<open>find\<close> first calls \<open>match\<close>, that is when
  the filter has kept a tag. The result is the position of the tag found.
\<close>

definition prerelease_tag :: "re_item list \<Rightarrow> tag \<Rightarrow> bool" where
  "prerelease_tag prefixRegex t = prerelease (strip_prefix prefixRegex (name t))"

definition getLatestPrereleaseTag ::
  "tag list \<Rightarrow> string \<Rightarrow> re_item list \<Rightarrow> abort + nat option" where
  "getLatestPrereleaseTag tags identifier prefixRegex =
     (if filter (prerelease_tag prefixRegex) tags = [] then Inr None
      else
        (case compile identifier of
           None \<Rightarrow> Inl Unsupported_pattern
         | Some r \<Rightarrow>
             Inr (find_index
                    (\<lambda>t. prerelease_tag prefixRegex t
                          \<and> search r (strip_prefix prefixRegex (name t))) tags)))"

text \<open>
  A tag with a pre-release component whose version, the prefix removed, contains the
  identifier somewhere.
\<close>

definition mentions :: "string \<Rightarrow> re_item list \<Rightarrow> tag \<Rightarrow> bool" where
  "mentions identifier prefixRegex t =
     (prerelease_tag prefixRegex t
      \<and> str_includes identifier (strip_prefix prefixRegex (name t)))"

section \<open>BumpResolver: release type selection (lines 389-416)\<close>

text \<open>\<open>!bump\<close>.\<close>

definition falsy :: "string option \<Rightarrow> bool" where
  "falsy b = (case b of None \<Rightarrow> True | Some s \<Rightarrow> s = [])"

text \<open>\<open>Array.prototype.indexOf\<close>: the first position of the value, or \<open>-1\<close>.\<close>

fun indexOf :: "string list \<Rightarrow> string option \<Rightarrow> int" where
  "indexOf [] x = - 1"
| "indexOf (y # ys) x =
     (if x = Some y then 0
      else (let i = indexOf ys x in if i < 0 then - 1 else i + 1))"

definition bumpPriority :: "string list" where
  "bumpPriority = [''patch'', ''minor'', ''major'']"

definition preBumpPriority :: "string list" where
  "preBumpPriority = [''prerelease'', ''prepatch'', ''preminor'', ''premajor'']"

text \<open>
  Lines 389-392. \<open>promotePatchToMinor\<close> is the raw input string, so it is truthy whenever
  it is not empty; \<open>/patch$/.test(null)\<close> tests the text \<open>null\<close> and fails.
\<close>

definition promote :: "string \<Rightarrow> string option \<Rightarrow> string option" where
  "promote promotePatchToMinor bump =
     (case bump of
        None \<Rightarrow> None
      | Some b \<Rightarrow>
          if promotePatchToMinor \<noteq> [] \<and> ends_with ''patch'' b
          then Some (take (length b - 5) b @ ''minor'')
          else Some b)"

text \<open>
  Lines 394-416. \<open>prevPre\<close> says that \<open>previousVersion.prerelease.length\<close> is not zero. The
  template \<open>`pre${bump}`\<close> prints \<open>null\<close> for a missing bump.
\<close>

definition releaseTypeOf ::
  "bool \<Rightarrow> string \<Rightarrow> string \<Rightarrow> string option \<Rightarrow> bool \<Rightarrow> string option" where
  "releaseTypeOf isPrerel defaultBump defaultPreReleaseBump bump prevPre =
     (if \<not> isPrerel then
        (if indexOf bumpPriority (Some defaultBump) > indexOf bumpPriority bump
         then Some defaultBump else bump)
      else if defaultPreReleaseBump \<noteq> ''prerelease'' \<or> \<not> prevPre then
        (let bump' = ''pre'' @ (case bump of None \<Rightarrow> ''null'' | Some b \<Rightarrow> b)
         in if indexOf preBumpPriority (Some defaultPreReleaseBump)
               > indexOf preBumpPriority (Some bump')
            then Some defaultPreReleaseBump else Some bump')
      else Some defaultPreReleaseBump)"

section \<open>A run of the action: main (lines 220-485)\<close>

text \<open>The inputs read by \<open>core.getInput\<close>; an input that is not set reads as the empty string.\<close>

record inputs =
  default_bump :: string
  default_prerelease_bump :: string
  tag_prefix :: string
  custom_tag :: string
  release_branches :: string
  pre_release_branches :: string
  append_to_pre_release_tag :: string
  create_annotated_tag :: string
  dry_run :: string
  custom_release_rules :: string
  fetch_all_tags :: string
  commit_sha :: string
  promote_patch_to_minor :: string
  version_format :: string

record env =
  GITHUB_REF :: "string option"
  GITHUB_SHA :: "string option"

text \<open>
  What a run leaves behind: the outputs it set, the statement that ended it, the call of
  \<open>createTag\<close> if it made one, and \<open>validTags\<close> as it stands at the end.
\<close>

datatype stop =
    Failed string
  | No_bump
  | Not_a_tag_branch
  | Tag_exists
  | Dry_run
  | Tagged

record run =
  outputs :: "string \<rightharpoonup> string"
  stop :: stop
  created :: "(string \<times> bool \<times> string) option"
  catalog :: "tag list"

definition failed_run :: "string \<Rightarrow> (string \<rightharpoonup> string) \<Rightarrow> tag list \<Rightarrow> run" where
  "failed_run msg outs tags = \<lparr>outputs = outs, stop = Failed msg, created = None, catalog = tags\<rparr>"

text \<open>Lines 436-484.\<close>

definition finish ::
  "inputs \<Rightarrow> externals \<Rightarrow> string \<Rightarrow> bool \<Rightarrow> bool \<Rightarrow> store \<Rightarrow> tagref
     \<Rightarrow> (string \<rightharpoonup> string) \<Rightarrow> commit list \<Rightarrow> string \<Rightarrow> run" where
  "finish inp ext commitRef isReleaseBranch isPreReleaseBranch st latestTag outs commits version =
     (let newVersion = convertVersionFormat version (version_format inp);
          newTag = convertVersionFormat (tag_prefix inp @ newVersion) (version_format inp);
          changelog = generateNotes ext (custom_release_rules inp) commits
                        (name (deref st latestTag)) newTag newVersion;
          outs' = outs(''new_version'' \<mapsto> newVersion, ''new_tag'' \<mapsto> newTag,
                       ''changelog'' \<mapsto> changelog)
      in if \<not> isReleaseBranch \<and> \<not> isPreReleaseBranch
         then \<lparr>outputs = outs', stop = Not_a_tag_branch, created = None, catalog = entries st\<rparr>
         else if newTag \<in> set (map name (entries st))
         then \<lparr>outputs = outs', stop = Tag_exists, created = None, catalog = entries st\<rparr>
         else if test_true (dry_run inp)
         then \<lparr>outputs = outs', stop = Dry_run, created = None, catalog = entries st\<rparr>
         else \<lparr>outputs = outs', stop = Tagged,
                created = Some (newTag, test_true (create_annotated_tag inp), commitRef),
                catalog = entries st\<rparr>)"

text \<open>Lines 347-434, from the outputs of the previous version to the new version.\<close>

definition resolve_bump ::
  "inputs \<Rightarrow> externals \<Rightarrow> string \<Rightarrow> bool \<Rightarrow> bool \<Rightarrow> bool \<Rightarrow> string \<Rightarrow> store \<Rightarrow> tagref
     \<Rightarrow> tagref \<Rightarrow> semver \<Rightarrow> run" where
  "resolve_bump inp ext commitRef isReleaseBranch isPreReleaseBranch isPrerel identifier st
       latestTag previousTag previousVersion =
     (let outs = [''previous_version'' \<mapsto> sv_version previousVersion,
                  ''previous_tag'' \<mapsto> name (deref st previousTag)];
          commits = getCommits ext (sha (deref st previousTag)) commitRef;
          bump = analyzeCommits ext (custom_release_rules inp) commits
      in if falsy bump \<and> (if isPrerel then default_prerelease_bump inp = ''false''
                            else default_bump inp = ''false'')
         then \<lparr>outputs = outs, stop = No_bump, created = None, catalog = entries st\<rparr>
         else
           (let bump1 = (if isPrerel \<and> falsy bump then Some (default_prerelease_bump inp)
                         else bump);
                bump2 = promote (promote_patch_to_minor inp) bump1;
                releaseType = releaseTypeOf isPrerel (default_bump inp)
                                (default_prerelease_bump inp) bump2
                                (sv_prerelease previousVersion \<noteq> []);
                outs' = outs(''release_type'' \<mapsto> (case releaseType of None \<Rightarrow> [] | Some r \<Rightarrow> r))
            in case semver_inc ext previousVersion releaseType identifier of
                 None \<Rightarrow> failed_run ''Could not increment version.'' outs' (entries st)
               | Some incrementedVersion \<Rightarrow>
                   if incrementedVersion = []
                   then failed_run ''Could not increment version.'' outs' (entries st)
                   else if \<not> valid incrementedVersion
                   then failed_run (incrementedVersion @ '' is not a valid semver.'') outs'
                          (entries st)
                   else finish inp ext commitRef isReleaseBranch isPreReleaseBranch st latestTag
                          outs' commits incrementedVersion))"

text \<open>
  Lines 310-346: the previous tag is chosen, its version is parsed, and line 337 assigns
  the converted name to the chosen object, which is an object of \<open>validTags\<close> unless it is
  the synthetic one. The chosen tag is always an object, so the check of line 326 never
  fails and has no branch here.
\<close>

definition choose_previous ::
  "bool \<Rightarrow> re_item list \<Rightarrow> store \<Rightarrow> tagref \<Rightarrow> nat option \<Rightarrow> abort + tagref" where
  "choose_previous isReleaseBranch prefixRegex st latestTag latestPrereleaseTag =
     (case latestPrereleaseTag of
        None \<Rightarrow> Inr latestTag
      | Some i \<Rightarrow>
          if isReleaseBranch then Inr latestTag
          else
            (case gte (strip_prefix prefixRegex (name (deref st latestTag)))
                      (strip_prefix prefixRegex (name (entries st ! i))) of
               Inl e \<Rightarrow> Inl e
             | Inr b \<Rightarrow> Inr (if b then latestTag else Entry i)))"

definition bump_version ::
  "inputs \<Rightarrow> externals \<Rightarrow> string \<Rightarrow> bool \<Rightarrow> bool \<Rightarrow> bool \<Rightarrow> string \<Rightarrow> re_item list \<Rightarrow> store
     \<Rightarrow> tagref \<Rightarrow> nat option \<Rightarrow> abort + run" where
  "bump_version inp ext commitRef isReleaseBranch isPreReleaseBranch isPrerel identifier
       prefixRegex st latestTag latestPrereleaseTag =
     (case choose_previous isReleaseBranch prefixRegex st latestTag latestPrereleaseTag of
        Inl e \<Rightarrow> Inl e
      | Inr previousTag \<Rightarrow>
          (let previousVersion = parse (strip_prefix prefixRegex (name (deref st previousTag)));
               st' = set_name st previousTag
                       (convertVersionFormat (name (deref st previousTag)) (version_format inp))
           in case previousVersion of
                None \<Rightarrow> Inr (failed_run ''Could not parse previous tag.'' Map.empty (entries st'))
              | Some v \<Rightarrow>
                  Inr (resolve_bump inp ext commitRef isReleaseBranch isPreReleaseBranch isPrerel
                         identifier st' latestTag previousTag v)))"

text \<open>Lines 275-309, from the prefix pattern to the choice between a custom tag and a bump.\<close>

definition tag_run ::
  "inputs \<Rightarrow> externals \<Rightarrow> string \<Rightarrow> string \<Rightarrow> bool \<Rightarrow> bool \<Rightarrow> abort + run" where
  "tag_run inp ext ref commitRef isReleaseBranch isPreReleaseBranch =
     (let isPrerel = isPrerelease isReleaseBranch (isPr ref) isPreReleaseBranch;
          identifier = sanitize (if append_to_pre_release_tag inp \<noteq> []
                                 then append_to_pre_release_tag inp else getBranchFromRef ref)
      in case compile (tag_prefix inp) of
           None \<Rightarrow> Inl Unsupported_pattern
         | Some prefixRegex \<Rightarrow>
             (let validTags = getValidTags prefixRegex (test_true (fetch_all_tags inp))
                                (version_format inp) ext;
                  st = \<lparr>entries = validTags, fallback = synthetic_tag (tag_prefix inp)\<rparr>;
                  latestTag = getLatestTag validTags prefixRegex
              in case getLatestPrereleaseTag validTags identifier prefixRegex of
                   Inl e \<Rightarrow> Inl e
                 | Inr latestPrereleaseTag \<Rightarrow>
                     if custom_tag inp \<noteq> []
                     then Inr (finish inp ext commitRef isReleaseBranch isPreReleaseBranch st
                                 latestTag [''release_type'' \<mapsto> ''custom'']
                                 (getCommits ext (sha (deref st latestTag)) commitRef)
                                 (custom_tag inp))
                     else bump_version inp ext commitRef isReleaseBranch isPreReleaseBranch
                            isPrerel identifier prefixRegex st latestTag latestPrereleaseTag))"

text \<open>Lines 246-267; \<open>commitSha || GITHUB_SHA\<close> is the input unless it is empty.\<close>

definition main :: "inputs \<Rightarrow> env \<Rightarrow> externals \<Rightarrow> abort + run" where
  "main inp e ext =
     (case GITHUB_REF e of
        None \<Rightarrow> Inr (failed_run ''Missing GITHUB_REF.'' Map.empty [])
      | Some ref \<Rightarrow>
          if ref = [] then Inr (failed_run ''Missing GITHUB_REF.'' Map.empty [])
          else
            (case (if commit_sha inp \<noteq> [] then Some (commit_sha inp) else GITHUB_SHA e) of
               None \<Rightarrow> Inr (failed_run ''Missing commit_sha or GITHUB_SHA.'' Map.empty [])
             | Some commitRef \<Rightarrow>
                 if commitRef = []
                 then Inr (failed_run ''Missing commit_sha or GITHUB_SHA.'' Map.empty [])
                 else
                   (case branch_in (release_branches inp) ref of
                      Inl x \<Rightarrow> Inl x
                    | Inr isReleaseBranch \<Rightarrow>
                        (case branch_in (pre_release_branches inp) ref of
                           Inl x \<Rightarrow> Inl x
                         | Inr isPreReleaseBranch \<Rightarrow>
                             tag_run inp ext ref commitRef isReleaseBranch isPreReleaseBranch))))"

text \<open>
  The previous tag of a run: what lines 259-324 choose on the ref \<open>ref\<close>, with the compiled
  prefix pattern, when no custom tag is given. These are the steps of \<open>main\<close> and \<open>tag_run\<close>
  up to \<open>choose_previous\<close>, on the catalog as \<open>getValidTags\<close> returns it.
\<close>

definition previous_tag_chosen ::
  "inputs \<Rightarrow> externals \<Rightarrow> string \<Rightarrow> re_item list \<Rightarrow> abort + tagref" where
  "previous_tag_chosen inp ext ref prefixRegex =
     (case branch_in (release_branches inp) ref of
        Inl x \<Rightarrow> Inl x
      | Inr isReleaseBranch \<Rightarrow>
          (let identifier = sanitize (if append_to_pre_release_tag inp \<noteq> []
                                      then append_to_pre_release_tag inp else getBranchFromRef ref);
               validTags = getValidTags prefixRegex (test_true (fetch_all_tags inp))
                             (version_format inp) ext;
               st = \<lparr>entries = validTags, fallback = synthetic_tag (tag_prefix inp)\<rparr>
           in case getLatestPrereleaseTag validTags identifier prefixRegex of
                Inl x \<Rightarrow> Inl x
              | Inr latestPrereleaseTag \<Rightarrow>
                  choose_previous isReleaseBranch prefixRegex st
                    (getLatestTag validTags prefixRegex) latestPrereleaseTag))"

text \<open>A run that ended before line 436: by a failure or by the skip of lines 374-380.\<close>

definition ended_early :: "run \<Rightarrow> bool" where
  "ended_early r =
     ((case stop r of Failed _ \<Rightarrow> True | No_bump \<Rightarrow> True | _ \<Rightarrow> False)
      \<and> outputs r ''new_version'' = None \<and> outputs r ''new_tag'' = None
      \<and> outputs r ''changelog'' = None \<and> created r = None)"

text \<open>What line 337 makes of a catalog when the previous tag is its entry \<open>i\<close>.\<close>

definition renamed :: "string \<Rightarrow> tag list \<Rightarrow> nat \<Rightarrow> tag list" where
  "renamed versionFormat tags i =
     tags[i := (tags ! i)\<lparr>name := convertVersionFormat (name (tags ! i)) versionFormat\<rparr>]"

section \<open>Sample runs\<close>

text \<open>The inputs with the defaults of \<open>action.yml\<close>.\<close>

definition action_defaults :: inputs where
  "action_defaults =
     \<lparr>default_bump = ''patch'', default_prerelease_bump = ''prerelease'', tag_prefix = ''v'',
      custom_tag = [], release_branches = ''master,main'', pre_release_branches = [],
      append_to_pre_release_tag = [], create_annotated_tag = ''false'', dry_run = ''false'',
      custom_release_rules = [], fetch_all_tags = ''false'', commit_sha = [],
      promote_patch_to_minor = ''false'', version_format = ''MAJOR.MINOR.PATCH''\<rparr>"

text \<open>
  A repository with the given tags in which the analyser finds the given bump; \<open>inc\<close> is
  given at the inputs the samples reach, with the values the package returns there.
\<close>

definition sample_inc :: "semver \<Rightarrow> string option \<Rightarrow> string \<Rightarrow> string option" where
  "sample_inc v releaseType identifier =
     (if sv_version v = ''1.0.0'' \<and> releaseType = Some ''minor'' then Some ''1.1.0''
      else if sv_version v = ''1.2.0'' \<and> releaseType = Some ''minor'' then Some ''1.3.0''
      else if sv_version v = ''1.3.0'' \<and> releaseType = Some ''prerelease'' \<and> identifier = ''beta''
      then Some ''1.3.1-beta.0''
      else None)"

definition repository :: "tag list \<Rightarrow> string option \<Rightarrow> externals" where
  "repository tags bump =
     \<lparr>listTags = (\<lambda>_. tags),
      compareCommits = (\<lambda>_ _. [\<lparr>message = ''feat: x'', hash = ''c1''\<rparr>]),
      analyzeCommits = (\<lambda>_ _. bump),
      generateNotes = (\<lambda>_ _ _ _ _. ''notes''),
      semver_inc = sample_inc\<rparr>"

definition on_ref :: "string \<Rightarrow> env" where
  "on_ref ref = \<lparr>GITHUB_REF = Some ref, GITHUB_SHA = Some ''abc123''\<rparr>"

section \<open>Properties of the version formatter\<close>

lemma no_lead_digit_takeWhile: "no_lead_digit s \<Longrightarrow> takeWhile is_digit s = []"
  by (cases s) (simp_all add: no_lead_digit_def)

lemma no_lead_digit_dropWhile: "no_lead_digit (dropWhile is_digit s)"
proof (cases "dropWhile is_digit s")
  case Nil
  show ?thesis unfolding no_lead_digit_def Nil by simp
next
  case (Cons c r)
  have "\<not> is_digit (hd (dropWhile is_digit s))"
    by (rule hd_dropWhile) (simp add: Cons)
  then show ?thesis unfolding no_lead_digit_def Cons by simp
qed

lemma digits_then: 
  assumes "\<forall>c \<in> set a. is_digit c" "no_lead_digit s"
  shows "takeWhile is_digit (a @ s) = a" "dropWhile is_digit (a @ s) = s"
proof -
  show "takeWhile is_digit (a @ s) = a"
    using assms by (simp add: takeWhile_append2 no_lead_digit_takeWhile)
  show "dropWhile is_digit (a @ s) = s"
    using assms by (cases s) (auto simp add: dropWhile_append2 no_lead_digit_def)
qed

lemma opt_group_build:
  assumes "a \<noteq> []" "\<forall>c \<in> set a. is_digit c" "no_lead_digit s"
  shows "opt_group (CHR ''.'' # a @ s) = (Some a, s)"
  using digits_then[OF assms(2,3)] assms(1) by (simp add: opt_group_def)

lemma opt_group_Some:
  assumes "opt_group s = (Some a, r)"
  shows "s = CHR ''.'' # a @ r \<and> a \<noteq> [] \<and> (\<forall>c \<in> set a. is_digit c) \<and> no_lead_digit r"
proof (cases s)
  case Nil
  with assms show ?thesis by (simp add: opt_group_def)
next
  case (Cons c t)
  with assms have c: "c = CHR ''.''" and a: "a = takeWhile is_digit t" and
    r: "r = dropWhile is_digit t" and ne: "takeWhile is_digit t \<noteq> []"
    by (auto simp add: opt_group_def split: if_splits)
  have "\<forall>c \<in> set a. is_digit c" unfolding a by (meson set_takeWhileD)
  with c a r ne Cons show ?thesis
    by (simp add: no_lead_digit_dropWhile)
qed

lemma opt_group_None: "opt_group s = (None, r) \<Longrightarrow> r = s"
  by (auto simp add: opt_group_def split: list.splits if_splits)


lemma match_version_parts:
  assumes "match_version t = Some m"
  shows "t = vm_prefix m @ vm_major m @ dotted (vm_minor m) @ dotted (vm_patch m) @ vm_suffix m"
    and "\<forall>c \<in> set (vm_prefix m). \<not> is_digit c"
    and "vm_major m \<noteq> []" and "\<forall>c \<in> set (vm_major m). is_digit c"
    and "\<And>a. vm_minor m = Some a \<Longrightarrow> a \<noteq> [] \<and> (\<forall>c \<in> set a. is_digit c)"
    and "\<And>b. vm_patch m = Some b \<Longrightarrow> b \<noteq> [] \<and> (\<forall>c \<in> set b. is_digit c)"
    and "vm_minor m = None \<Longrightarrow> vm_patch m = None"
    and "no_lead_digit (vm_suffix m)"
    and "\<forall>c \<in> set t. \<not> line_terminator c"
proof -
  define rest where "rest = dropWhile (\<lambda>c. \<not> is_digit c) t"
  define r1 where "r1 = dropWhile is_digit rest"
  obtain mi r2 where g1: "opt_group r1 = (mi, r2)" by (cases "opt_group r1")
  obtain pa r3 where g2: "opt_group r2 = (pa, r3)" by (cases "opt_group r2")
  from assms have nt: "\<forall>c \<in> set t. \<not> line_terminator c" and ne: "rest \<noteq> []"
    by (auto simp add: match_version_def rest_def Let_def split: if_splits)
  from assms nt ne g1 g2 have m: "m = \<lparr>vm_prefix = takeWhile (\<lambda>c. \<not> is_digit c) t,
      vm_major = takeWhile is_digit rest, vm_minor = mi, vm_patch = pa, vm_suffix = r3\<rparr>"
    by (auto simp add: match_version_def rest_def r1_def Let_def split: if_splits)
  have t: "t = takeWhile (\<lambda>c. \<not> is_digit c) t @ takeWhile is_digit rest @ r1"
    by (simp add: rest_def r1_def)
  have n1: "no_lead_digit r1"
    unfolding r1_def by (rule no_lead_digit_dropWhile)
  have d1: "r1 = dotted mi @ r2 \<and> no_lead_digit r2"
  proof (cases mi)
    case None
    with g1 have "r2 = r1" by (simp add: opt_group_None)
    with None n1 show ?thesis by (simp add: dotted_def)
  next
    case (Some a)
    with g1 opt_group_Some[of r1 a r2] show ?thesis by (simp add: dotted_def)
  qed
  have d2: "r2 = dotted pa @ r3 \<and> no_lead_digit r3"
  proof (cases pa)
    case None
    with g2 have "r3 = r2" by (simp add: opt_group_None)
    with None d1 show ?thesis by (simp add: dotted_def)
  next
    case (Some b)
    with g2 opt_group_Some[of r2 b r3] show ?thesis by (simp add: dotted_def)
  qed
  have n3: "no_lead_digit r3" using d2 by simp
  show "t = vm_prefix m @ vm_major m @ dotted (vm_minor m) @ dotted (vm_patch m) @ vm_suffix m"
  proof -
    have "t = takeWhile (\<lambda>c. \<not> is_digit c) t @ takeWhile is_digit rest
                @ dotted mi @ dotted pa @ r3"
      using t d1 d2 by metis
    then show ?thesis by (simp add: m)
  qed
  show "\<forall>c \<in> set (vm_prefix m). \<not> is_digit c"
    unfolding m by (auto dest: set_takeWhileD)
  show "vm_major m \<noteq> []"
    using ne hd_dropWhile[of "\<lambda>c. \<not> is_digit c" t]
    by (cases rest) (auto simp add: m rest_def)
  show "\<forall>c \<in> set (vm_major m). is_digit c"
    unfolding m by (auto dest: set_takeWhileD)
  show "\<And>a. vm_minor m = Some a \<Longrightarrow> a \<noteq> [] \<and> (\<forall>c \<in> set a. is_digit c)"
    using g1 opt_group_Some[of r1 _ r2] by (simp add: m)
  show "\<And>b. vm_patch m = Some b \<Longrightarrow> b \<noteq> [] \<and> (\<forall>c \<in> set b. is_digit c)"
    using g2 opt_group_Some[of r2 _ r3] by (simp add: m)
  show "vm_minor m = None \<Longrightarrow> vm_patch m = None"
  proof -
    assume "vm_minor m = None"
    then have "mi = None" by (simp add: m)
    with g1 have "r2 = r1" by (simp add: opt_group_None)
    with g1 g2 \<open>mi = None\<close> have "pa = None" by simp
    then show "vm_patch m = None" by (simp add: m)
  qed
  show "no_lead_digit (vm_suffix m)" using n3 by (simp add: m)
  show "\<forall>c \<in> set t. \<not> line_terminator c" by (rule nt)
qed

lemma match_version_build:
  assumes p: "\<forall>c \<in> set p. \<not> is_digit c \<and> \<not> line_terminator c"
    and M: "M \<noteq> []" "\<forall>c \<in> set M. is_digit c"
    and a: "a \<noteq> []" "\<forall>c \<in> set a. is_digit c"
    and b: "b \<noteq> []" "\<forall>c \<in> set b. is_digit c"
    and s: "no_lead_digit s" "\<forall>c \<in> set s. \<not> line_terminator c"
  shows "match_version (p @ M @ CHR ''.'' # a @ CHR ''.'' # b @ s)
           = Some \<lparr>vm_prefix = p, vm_major = M, vm_minor = Some a, vm_patch = Some b, vm_suffix = s\<rparr>"
proof -
  let ?t = "p @ M @ CHR ''.'' # a @ CHR ''.'' # b @ s"
  have dl: "\<And>c. is_digit c \<Longrightarrow> \<not> line_terminator c"
    by (auto simp add: is_digit_def line_terminator_def)
  have nd: "\<not> is_digit CHR ''.''" "\<not> line_terminator CHR ''.''"
    by (simp_all add: is_digit_def line_terminator_def)
  have nl: "\<not> (\<exists>c \<in> set ?t. line_terminator c)"
    using p M a b s dl nd by auto
  obtain d M' where Md: "M = d # M'" using M(1) by (cases M) auto
  then have dd: "is_digit d" using M(2) by simp
  have rest: "dropWhile (\<lambda>c. \<not> is_digit c) ?t = M @ CHR ''.'' # a @ CHR ''.'' # b @ s"
    using p dd by (simp add: dropWhile_append2 Md)
  have pre: "takeWhile (\<lambda>c. \<not> is_digit c) ?t = p"
    using p dd by (simp add: takeWhile_append2 Md)
  have n1: "no_lead_digit (CHR ''.'' # a @ CHR ''.'' # b @ s)"
    and n2: "no_lead_digit (CHR ''.'' # b @ s)"
    using nd by (simp_all add: no_lead_digit_def)
  have tM: "takeWhile is_digit (M @ CHR ''.'' # a @ CHR ''.'' # b @ s) = M"
    and dM: "dropWhile is_digit (M @ CHR ''.'' # a @ CHR ''.'' # b @ s)
               = CHR ''.'' # a @ CHR ''.'' # b @ s"
    using digits_then[OF M(2) n1] by simp_all
  have g1: "opt_group (CHR ''.'' # a @ CHR ''.'' # b @ s) = (Some a, CHR ''.'' # b @ s)"
    using opt_group_build[OF a n2] by simp
  have g2: "opt_group (CHR ''.'' # b @ s) = (Some b, s)"
    using opt_group_build[OF b s(1)] by simp
  have ne: "M @ CHR ''.'' # a @ CHR ''.'' # b @ s \<noteq> []" using M(1) by simp
  show ?thesis
    using nl ne by (simp only: match_version_def Let_def rest pre tM dM g1 g2 split if_False simp_thms)
qed

text \<open>
  C2. For each of the formats \<open>MAJOR.MINOR.PATCH\<close>, \<open>MAJOR.MINOR\<close> and \<open>MAJOR\<close>, and each tag
  in which the pattern of line 14 finds exactly the numeric components that the format
  names, converting the tag to the canonical format and the result back to the format gives
  the tag again, prefix and suffix included.
\<close>

theorem convertVersionFormat_round_trip:
  assumes F: "F = ''MAJOR.MINOR.PATCH'' \<or> F = ''MAJOR.MINOR'' \<or> F = ''MAJOR''"
    and t: "matches_format t F"
  shows "convertVersionFormat (convertVersionFormat t ''MAJOR.MINOR.PATCH'') F = t"
proof -
  from t obtain m where m: "match_version t = Some m"
    by (auto simp add: matches_format_def split: option.splits)
  note parts = match_version_parts[OF m]
  define a where "a = (case vm_minor m of None \<Rightarrow> ''0'' | Some d \<Rightarrow> d)"
  define b where "b = (case vm_patch m of None \<Rightarrow> ''0'' | Some d \<Rightarrow> d)"
  have zero: "is_digit CHR ''0''" by (simp add: is_digit_def)
  have a: "a \<noteq> []" "\<forall>c \<in> set a. is_digit c"
    using parts(5) zero by (auto simp add: a_def split: option.splits)
  have b: "b \<noteq> []" "\<forall>c \<in> set b. is_digit c"
    using parts(6) zero by (auto simp add: b_def split: option.splits)
  have canon: "convertVersionFormat t ''MAJOR.MINOR.PATCH''
                 = vm_prefix m @ vm_major m @ CHR ''.'' # a @ CHR ''.'' # b @ vm_suffix m"
    by (simp add: convertVersionFormat_def m versionItem_def a_def b_def)
  have pl: "\<forall>c \<in> set (vm_prefix m). \<not> is_digit c \<and> \<not> line_terminator c"
    and sl: "\<forall>c \<in> set (vm_suffix m). \<not> line_terminator c"
  proof -
    have "set (vm_prefix m) \<subseteq> set t" "set (vm_suffix m) \<subseteq> set t"
      by (subst parts(1), auto)+
    then show "\<forall>c \<in> set (vm_prefix m). \<not> is_digit c \<and> \<not> line_terminator c"
      and "\<forall>c \<in> set (vm_suffix m). \<not> line_terminator c"
      using parts(2,9) by blast+
  qed
  have again: "match_version (vm_prefix m @ vm_major m @ CHR ''.'' # a @ CHR ''.'' # b @ vm_suffix m)
        = Some \<lparr>vm_prefix = vm_prefix m, vm_major = vm_major m, vm_minor = Some a, vm_patch = Some b,
                 vm_suffix = vm_suffix m\<rparr>"
    by (rule match_version_build[OF pl parts(3,4) a b parts(8) sl])
  have t_eq: "t = vm_prefix m @ vm_major m @ dotted (vm_minor m) @ dotted (vm_patch m) @ vm_suffix m"
    by (rule parts(1))
  have "F \<noteq> []" using F by auto
  then have conv_back: "convertVersionFormat (convertVersionFormat t ''MAJOR.MINOR.PATCH'') F
      = vm_prefix m @ join ''.'' (map (versionItem \<lparr>vm_prefix = vm_prefix m, vm_major = vm_major m,
          vm_minor = Some a, vm_patch = Some b, vm_suffix = vm_suffix m\<rparr>) (split CHR ''.'' F)) @ vm_suffix m"
    unfolding canon by (simp add: convertVersionFormat_def again)
  from F consider (F3) "F = ''MAJOR.MINOR.PATCH''" | (F2) "F = ''MAJOR.MINOR''"
    | (F1) "F = ''MAJOR''" by blast
  then have items: "vm_prefix m @ join ''.'' (map (versionItem \<lparr>vm_prefix = vm_prefix m, vm_major = vm_major m,
          vm_minor = Some a, vm_patch = Some b, vm_suffix = vm_suffix m\<rparr>) (split CHR ''.'' F)) @ vm_suffix m
      = vm_prefix m @ vm_major m @ dotted (vm_minor m) @ dotted (vm_patch m) @ vm_suffix m"
  proof cases
    case F3
    with t m obtain x y where "vm_minor m = Some x" "vm_patch m = Some y"
      by (auto simp add: matches_format_def)
    then show ?thesis
      by (simp add: versionItem_def F3 a_def b_def dotted_def)
  next
    case F2
    with t m obtain x where "vm_minor m = Some x" "vm_patch m = None"
      by (auto simp add: matches_format_def)
    then show ?thesis
      by (simp add: versionItem_def F2 a_def b_def dotted_def)
  next
    case F1
    with t m have "vm_minor m = None" "vm_patch m = None"
      by (auto simp add: matches_format_def)
    then show ?thesis
      by (simp add: versionItem_def F1 a_def b_def dotted_def)
  qed
  show ?thesis
    by (rule trans[OF conv_back trans[OF items t_eq[symmetric]]])
qed

theorem convertVersionFormat_round_trip_witness:
  "matches_format ''main-v1.2-rc.1'' ''MAJOR.MINOR'' \<and>
   convertVersionFormat (convertVersionFormat ''main-v1.2-rc.1'' ''MAJOR.MINOR.PATCH'')
     ''MAJOR.MINOR'' = ''main-v1.2-rc.1''"
proof -
  have h: "matches_format ''main-v1.2-rc.1'' ''MAJOR.MINOR''"
    by code_simp
  from convertVersionFormat_round_trip[OF _ h] h show ?thesis by simp
qed

section \<open>Properties of the pre-release identifier normalizer\<close>

text \<open>
  C7. In \<open>add\<close> mode the tag \<open>v1.0.0-rc.1\<close>, whose identifier \<open>rc\<close> already has its dot, does
  not come back unchanged: \<open>(-rc)(\w+)\<close> finds no match in it, since a dot follows \<open>-rc\<close>,
  so lines 38-45 are skipped and lines 47-50 take the dot away.
\<close>

theorem add_mode_removes_existing_dot:
  "removeDotFromPreReleaseIdentifier ''v1.0.0-rc.1'' ''rc'' Add = Some ''v1.0.0-rc1''"
  by code_simp

theorem add_mode_removes_existing_dot_witness:
  "removeDotFromPreReleaseIdentifier ''v1.0.0-rc.1'' ''rc'' Add = Some ''v1.0.0-rc1'' \<and>
   ''v1.0.0-rc1'' \<noteq> ''v1.0.0-rc.1''"
  using add_mode_removes_existing_dot by simp

section \<open>Properties of pattern matching\<close>

lemma match_here_whole:
  "match_here r s = Some rest \<Longrightarrow> \<exists>v. s = v @ rest \<and> whole_match r v"
proof (induction r s arbitrary: rest rule: match_here.induct)
  case (1 s)
  then show ?case by simp
next
  case (2 a r)
  then show ?case by simp
next
  case (3 a r c s)
  then have ok: "atom_ok a c" and m: "match_here r s = Some rest"
    by (auto split: if_splits)
  from "3.IH"[OF ok m] obtain v where "s = v @ rest" "whole_match r v" by blast
  with ok have "c # s = (c # v) @ rest \<and> whole_match (One a # r) (c # v)" by simp
  then show ?case by blast
next
  case (4 a r)
  then have m: "match_here r [] = Some rest" by simp
  from "4.IH"[OF m] obtain v where v: "[] = v @ rest" "whole_match r v" by blast
  then have "v = []" by simp
  with v have "[] = [] @ rest \<and> whole_match (Star a # r) []" by simp
  then show ?case by blast
next
  case (5 a r c s)
  show ?case
  proof (cases "atom_ok a c \<and> match_here (Star a # r) s \<noteq> None")
    case True
    with "5.prems" have m: "match_here (Star a # r) s = Some rest" by auto
    from True "5.IH"(1)[OF _ m] obtain v where "s = v @ rest" "whole_match (Star a # r) v"
      by blast
    with True have "c # s = (c # v) @ rest \<and> whole_match (Star a # r) (c # v)" by simp
    then show ?thesis by blast
  next
    case False
    with "5.prems" have m: "match_here r (c # s) = Some rest"
      by (auto split: if_splits option.splits)
    have "\<exists>v. c # s = v @ rest \<and> whole_match r v"
    proof (cases "atom_ok a c")
      case True
      with False have "match_here (Star a # r) s = None" by simp
      from "5.IH"(2)[OF True this m] show ?thesis .
    next
      case no: False
      from "5.IH"(3)[OF no m] show ?thesis .
    qed
    then obtain v where v: "c # s = v @ rest" "whole_match r v" by blast
    have "whole_match (Star a # r) v"
    proof (cases v)
      case Nil
      with v show ?thesis by simp
    next
      case (Cons d v')
      with v show ?thesis by simp
    qed
    with v show ?thesis by blast
  qed
qed

lemma whole_match_here:
  "whole_match r v \<Longrightarrow> match_here r (v @ w) \<noteq> None"
proof (induction r v arbitrary: w rule: whole_match.induct)
  case (1 s)
  then show ?case by simp
next
  case (2 a r)
  then show ?case by simp
next
  case (3 a r c s)
  then show ?case by simp
next
  case (4 a r)
  then have r: "match_here r ([] @ w) \<noteq> None" by simp
  show ?case
  proof (cases w)
    case Nil
    with r show ?thesis by simp
  next
    case (Cons d w')
    with r show ?thesis by (auto split: option.splits)
  qed
next
  case (5 a r c s)
  from "5.prems" consider (skip) "whole_match r (c # s)"
    | (take) "atom_ok a c" "whole_match (Star a # r) s" by auto
  then show ?case
  proof cases
    case skip
    from "5.IH"(1)[OF skip] have "match_here r ((c # s) @ w) \<noteq> None" .
    then show ?thesis by (auto split: option.splits)
  next
    case take
    from "5.IH"(2)[OF take(2)] have "match_here (Star a # r) (s @ w) \<noteq> None" .
    with take(1) show ?thesis by (auto split: option.splits)
  qed
qed

lemma search_iff_suffix:
  "search r s \<longleftrightarrow> (\<exists>u t. s = u @ t \<and> match_here r t \<noteq> None)"
proof (induction s)
  case Nil
  then show ?case by simp
next
  case (Cons c s)
  show ?case
  proof
    assume "search r (c # s)"
    then consider "match_here r (c # s) \<noteq> None" | "search r s" by auto
    then show "\<exists>u t. c # s = u @ t \<and> match_here r t \<noteq> None"
    proof cases
      case 1
      then have "c # s = [] @ (c # s) \<and> match_here r (c # s) \<noteq> None" by simp
      then show ?thesis by blast
    next
      case 2
      with Cons obtain u t where "s = u @ t" "match_here r t \<noteq> None" by blast
      then have "c # s = (c # u) @ t \<and> match_here r t \<noteq> None" by simp
      then show ?thesis by blast
    qed
  next
    assume "\<exists>u t. c # s = u @ t \<and> match_here r t \<noteq> None"
    then obtain u t where ut: "c # s = u @ t" "match_here r t \<noteq> None" by blast
    show "search r (c # s)"
    proof (cases u)
      case Nil
      with ut have "match_here r (c # s) \<noteq> None" by auto
      then show ?thesis by simp
    next
      case (Cons d u')
      with ut have "s = u' @ t" by simp
      with ut(2) Cons.IH have "search r s" by blast
      then show ?thesis by simp
    qed
  qed
qed

text \<open>A pattern is found in a string exactly when some part of the string is a match.\<close>

lemma search_iff_part:
  "search r s \<longleftrightarrow> (\<exists>u v w. s = u @ v @ w \<and> whole_match r v)"
proof
  assume "search r s"
  then obtain u t where ut: "s = u @ t" "match_here r t \<noteq> None"
    unfolding search_iff_suffix by blast
  then obtain rest where "match_here r t = Some rest" by auto
  from match_here_whole[OF this] obtain v where "t = v @ rest" "whole_match r v" by blast
  with ut show "\<exists>u v w. s = u @ v @ w \<and> whole_match r v" by blast
next
  assume "\<exists>u v w. s = u @ v @ w \<and> whole_match r v"
  then obtain u v w where s: "s = u @ v @ w" and v: "whole_match r v" by blast
  from whole_match_here[OF v] have "match_here r (v @ w) \<noteq> None" .
  with s show "search r s" unfolding search_iff_suffix by blast
qed

lemma some_match_iff:
  assumes "list_all (\<lambda>p. compile p \<noteq> None) ps"
  shows "some_match ps b = Inr (\<exists>p \<in> set ps. \<exists>r. compile p = Some r \<and> search r b)"
  using assms
proof (induction ps)
  case Nil
  then show ?case by simp
next
  case (Cons p ps)
  then obtain r where r: "compile p = Some r" by auto
  from Cons have IH: "some_match ps b = Inr (\<exists>p \<in> set ps. \<exists>r. compile p = Some r \<and> search r b)"
    by simp
  show ?case
  proof (cases "search r b")
    case True
    with r show ?thesis by (auto simp add: entry_matches_def)
  next
    case False
    with r IH show ?thesis by (auto simp add: entry_matches_def)
  qed
qed

text \<open>
  C3. The claim fails: the entry \<open>main\<close> of the default \<open>release_branches\<close> counts as a match
  for the branch \<open>maintenance\<close>, which makes it a release branch, although neither \<open>master\<close>
  nor \<open>main\<close> matches the name as a whole.
\<close>

theorem substring_match_counterexample:
  "branch_in ''master,main'' ''refs/heads/maintenance'' = Inr True \<and>
   entry_matches ''main'' ''maintenance'' = Inr True \<and>
   map_option (\<lambda>r. whole_match r ''maintenance'') (compile ''main'') = Some False \<and>
   map_option (\<lambda>r. whole_match r ''maintenance'') (compile ''master'') = Some False"
  by code_simp

text \<open>
  C3, amended. An entry of \<open>release_branches\<close> or \<open>pre_release_branches\<close> counts as a match
  exactly when its regular expression matches some part of the branch name (line 262 and
  line 265 search the name, they do not anchor the pattern); the list matches when one of
  its entries does. So a branch whose name contains a match of a release pattern is a
  release branch.
\<close>

theorem branch_patterns_match_a_part:
  assumes "list_all (\<lambda>p. compile p \<noteq> None) (split CHR '','' branches)"
  shows "branch_in branches ref =
           Inr (\<exists>p \<in> set (split CHR '','' branches). \<exists>r u v w.
                  compile p = Some r \<and> getBranchFromRef ref = u @ v @ w \<and> whole_match r v)"
proof -
  have "(\<exists>p \<in> set (split CHR '','' branches). \<exists>r. compile p = Some r \<and> search r (getBranchFromRef ref))
      = (\<exists>p \<in> set (split CHR '','' branches). \<exists>r u v w.
           compile p = Some r \<and> getBranchFromRef ref = u @ v @ w \<and> whole_match r v)"
    unfolding search_iff_part by blast
  with some_match_iff[OF assms, of "getBranchFromRef ref"] show ?thesis
    by (simp add: branch_in_def)
qed

theorem branch_patterns_match_a_part_witness:
  "list_all (\<lambda>p. compile p \<noteq> None) (split CHR '','' ''master,main'') \<and>
   (\<exists>p \<in> set (split CHR '','' ''master,main''). \<exists>r u v w.
      compile p = Some r \<and> getBranchFromRef ''refs/heads/maintenance'' = u @ v @ w
      \<and> whole_match r v)"
proof -
  have h: "list_all (\<lambda>p. compile p \<noteq> None) (split CHR '','' ''master,main'')"
    by code_simp
  have b: "branch_in ''master,main'' ''refs/heads/maintenance'' = Inr True"
    by code_simp
  from branch_patterns_match_a_part[OF h, of "''refs/heads/maintenance''"] b h
  show ?thesis by simp
qed

section \<open>Properties of the tag catalog\<close>

lemma compareNumbers_sym: "compareNumbers b a = - compareNumbers a b"
  by (simp add: compareNumbers_def)

lemma compareIdentifiers_sym: "compareIdentifiers b a = - compareIdentifiers a b"
  by (cases a; cases b) (auto simp add: compareNumbers_def)

lemma compareIdentifiers_zero: "compareIdentifiers a b = 0 \<longleftrightarrow> a = b"
  by (cases a; cases b) (auto simp add: compareNumbers_def)

lemma compareNumbers_le: "compareNumbers a b \<le> 0 \<longleftrightarrow> a \<le> b"
  by (simp add: compareNumbers_def)

lemma compareIdentifiers_Num_le [simp]:
  "compareIdentifiers (Num x) (Num y) \<le> 0 \<longleftrightarrow> x \<le> y"
  by (simp add: compareNumbers_def)

lemma compareIdentifiers_Alpha_le [simp]:
  "compareIdentifiers (Alpha x) (Alpha y) \<le> 0 \<longleftrightarrow> x \<le> y"
  by auto

lemma compareIdentifiers_trans:
  assumes "compareIdentifiers a b \<le> 0" "compareIdentifiers b c \<le> 0"
  shows "compareIdentifiers a c \<le> 0"
proof (cases a)
  case a: (Num x)
  show ?thesis
  proof (cases c)
    case c: (Num z)
    with a assms show ?thesis by (cases b) (simp_all add: compareNumbers_le)
  next
    case (Alpha z)
    with a show ?thesis by simp
  qed
next
  case a: (Alpha x)
  with assms(1) obtain y where b: "b = Alpha y" by (cases b) simp_all
  with assms(2) obtain z where c: "c = Alpha z" by (cases c) simp_all
  from a b c assms have "x \<le> y" "y \<le> z" by (simp_all del: compareIdentifiers.simps(4))
  then have "x \<le> z" by (rule order_trans)
  with a c show ?thesis by (simp del: compareIdentifiers.simps(4))
qed

lemma compareIdentifierLists_sym:
  "compareIdentifierLists ys xs = - compareIdentifierLists xs ys"
proof (induction xs ys rule: compareIdentifierLists.induct)
  case (4 a as b bs)
  then show ?case using compareIdentifiers_sym[of b a] by auto
qed simp_all

lemma compareIdentifierLists_trans:
  "compareIdentifierLists xs ys \<le> 0 \<Longrightarrow> compareIdentifierLists ys zs \<le> 0
     \<Longrightarrow> compareIdentifierLists xs zs \<le> 0"
proof (induction xs arbitrary: ys zs)
  case Nil
  then show ?case by (cases zs) simp_all
next
  case (Cons a as)
  from Cons.prems(1) obtain b bs where ys: "ys = b # bs" by (cases ys) auto
  from Cons.prems(2) ys obtain c cs where zs: "zs = c # cs" by (cases zs) auto
  show ?case
  proof (cases "a = b")
    case ab: True
    show ?thesis
    proof (cases "b = c")
      case True
      with ab Cons ys zs show ?thesis by simp
    next
      case False
      with ab Cons.prems ys zs show ?thesis by simp
    qed
  next
    case ab: False
    with Cons.prems ys have 1: "compareIdentifiers a b \<le> 0" by simp
    show ?thesis
    proof (cases "b = c")
      case True
      with ab 1 zs show ?thesis by simp
    next
      case False
      with Cons.prems ys zs have 2: "compareIdentifiers b c \<le> 0" by simp
      have 3: "compareIdentifiers a c \<le> 0" by (rule compareIdentifiers_trans[OF 1 2])
      have "a \<noteq> c"
      proof
        assume "a = c"
        with 2 have "compareIdentifiers b a \<le> 0" by simp
        with 1 compareIdentifiers_sym[of b a] have "compareIdentifiers a b = 0" by simp
        with ab show False by (simp add: compareIdentifiers_zero)
      qed
      with 3 zs show ?thesis by simp
    qed
  qed
qed

lemma comparePre_sym: "comparePre y x = - comparePre x y"
  using compareIdentifierLists_sym[of "sv_prerelease y" "sv_prerelease x"]
  by (simp add: comparePre_def)

lemma comparePre_trans:
  "comparePre x y \<le> 0 \<Longrightarrow> comparePre y z \<le> 0 \<Longrightarrow> comparePre x z \<le> 0"
  using compareIdentifierLists_trans[of "sv_prerelease x" "sv_prerelease y" "sv_prerelease z"]
  by (auto simp add: comparePre_def split: if_splits)

lemma compareMain_sym: "compareMain y x = - compareMain x y"
  by (auto simp add: compareMain_def compareNumbers_def)

lemma compareMain_trans:
  "compareMain x y \<le> 0 \<Longrightarrow> compareMain y z \<le> 0 \<Longrightarrow>
     compareMain x z \<le> 0 \<and> (compareMain x z = 0 \<longrightarrow> compareMain x y = 0 \<and> compareMain y z = 0)"
  by (auto simp add: compareMain_def compareNumbers_def split: if_splits)

lemma compare_sym: "compare y x = - compare x y"
  using compareMain_sym[of y x] comparePre_sym[of y x] by (simp add: compare_def)

lemma compare_trans:
  assumes "compare x y \<le> 0" "compare y z \<le> 0"
  shows "compare x z \<le> 0"
proof -
  from assms have m: "compareMain x y \<le> 0" "compareMain y z \<le> 0"
    by (auto simp add: compare_def split: if_splits)
  note t = compareMain_trans[OF m]
  show ?thesis
  proof (cases "compareMain x z = 0")
    case True
    with t have "compareMain x y = 0" "compareMain y z = 0" by simp_all
    with assms have "comparePre x y \<le> 0" "comparePre y z \<le> 0" by (simp_all add: compare_def)
    then have "comparePre x z \<le> 0" by (rule comparePre_trans)
    with True show ?thesis by (simp add: compare_def)
  next
    case False
    with t show ?thesis by (simp add: compare_def)
  qed
qed

lemma set_insert_sorted: "set (insert_sorted cmp x ys) = insert x (set ys)"
  by (induction ys) auto

lemma set_sort_with: "set (sort_with cmp xs) = set xs"
  by (induction xs) (simp_all add: sort_with_def set_insert_sorted)

lemma sorted_insert_sorted:
  assumes total: "\<And>a b. a \<in> A \<Longrightarrow> b \<in> A \<Longrightarrow> cmp a b \<le> 0 \<or> cmp b a \<le> 0"
    and trans: "\<And>a b c. a \<in> A \<Longrightarrow> b \<in> A \<Longrightarrow> c \<in> A \<Longrightarrow> cmp a b \<le> 0 \<Longrightarrow> cmp b c \<le> 0
                  \<Longrightarrow> cmp a c \<le> 0"
    and "x \<in> A" "set ys \<subseteq> A" "sorted_wrt (\<lambda>a b. cmp a b \<le> 0) ys"
  shows "sorted_wrt (\<lambda>a b. cmp a b \<le> 0) (insert_sorted cmp x ys)"
  using assms(3-)
proof (induction ys)
  case Nil
  then show ?case by simp
next
  case (Cons y ys)
  show ?case
  proof (cases "cmp x y \<le> 0")
    case True
    have "\<forall>z \<in> set ys. cmp x z \<le> 0"
    proof
      fix z assume z: "z \<in> set ys"
      with Cons.prems have "cmp y z \<le> 0" "z \<in> A" "y \<in> A" by auto
      with True Cons.prems(1) show "cmp x z \<le> 0" using trans by blast
    qed
    with True Cons.prems show ?thesis by simp
  next
    case False
    with total[of x y] Cons.prems have yx: "cmp y x \<le> 0" by auto
    from Cons have "sorted_wrt (\<lambda>a b. cmp a b \<le> 0) (insert_sorted cmp x ys)" by simp
    with False yx Cons.prems show ?thesis by (simp add: set_insert_sorted)
  qed
qed

lemma sorted_sort_with:
  assumes total: "\<And>a b. a \<in> A \<Longrightarrow> b \<in> A \<Longrightarrow> cmp a b \<le> 0 \<or> cmp b a \<le> 0"
    and trans: "\<And>a b c. a \<in> A \<Longrightarrow> b \<in> A \<Longrightarrow> c \<in> A \<Longrightarrow> cmp a b \<le> 0 \<Longrightarrow> cmp b c \<le> 0
                  \<Longrightarrow> cmp a c \<le> 0"
    and "set xs \<subseteq> A"
  shows "sorted_wrt (\<lambda>a b. cmp a b \<le> 0) (sort_with cmp xs)"
  using assms(3)
proof (induction xs)
  case Nil
  then show ?case by (simp add: sort_with_def)
next
  case (Cons x xs)
  then have s: "sorted_wrt (\<lambda>a b. cmp a b \<le> 0) (sort_with cmp xs)" by simp
  have "sorted_wrt (\<lambda>a b. cmp a b \<le> 0) (insert_sorted cmp x (sort_with cmp xs))"
    by (rule sorted_insert_sorted[where A = A, OF total trans _ _ s])
       (use Cons.prems in \<open>auto simp add: set_sort_with\<close>)
  then show ?case by (simp add: sort_with_def)
qed

lemma tag_rcompare_valid:
  assumes "valid_tag pr a" "valid_tag pr b"
  shows "\<exists>x y. version_of pr a = Some x \<and> version_of pr b = Some y
           \<and> tag_rcompare pr a b = compare y x"
  using assms by (auto simp add: valid_tag_def valid_def version_of_def tag_rcompare_def)

lemma tag_rcompare_total:
  assumes "valid_tag pr a" "valid_tag pr b"
  shows "tag_rcompare pr a b \<le> 0 \<or> tag_rcompare pr b a \<le> 0"
proof -
  from tag_rcompare_valid[OF assms] obtain x y where
    "tag_rcompare pr a b = compare y x" "version_of pr a = Some x" "version_of pr b = Some y"
    by blast
  moreover from this tag_rcompare_valid[OF assms(2,1)]
  have "tag_rcompare pr b a = compare x y" by auto
  ultimately show ?thesis using compare_sym[of x y] by (simp, linarith)
qed

lemma tag_rcompare_trans:
  assumes "valid_tag pr a" "valid_tag pr b" "valid_tag pr c"
    and "tag_rcompare pr a b \<le> 0" "tag_rcompare pr b c \<le> 0"
  shows "tag_rcompare pr a c \<le> 0"
proof -
  from assms(1-3) obtain x y z where
    v: "version_of pr a = Some x" "version_of pr b = Some y" "version_of pr c = Some z"
    by (auto simp add: valid_tag_def valid_def version_of_def)
  then have r: "tag_rcompare pr a b = compare y x" "tag_rcompare pr b c = compare z y"
    "tag_rcompare pr a c = compare z x"
    by (simp_all add: tag_rcompare_def version_of_def)
  from assms(4,5) have "compare z y \<le> 0" "compare y x \<le> 0" by (simp_all add: r)
  then have "compare z x \<le> 0" by (rule compare_trans)
  then show ?thesis by (simp add: r)
qed

lemma tag_rcompare_not_below:
  assumes "valid_tag pr a" "valid_tag pr b" "tag_rcompare pr a b \<le> 0"
  shows "not_below pr a b"
proof -
  from tag_rcompare_valid[OF assms(1,2)] obtain x y where
    v: "version_of pr a = Some x" "version_of pr b = Some y"
    and r: "tag_rcompare pr a b = compare y x" by blast
  from assms(3) r compare_sym[of y x] have "0 \<le> compare x y" by simp
  with v show ?thesis by (simp add: not_below_def)
qed

lemma set_getValidTags:
  "t \<in> set (getValidTags pr fetch fmt ext) \<Longrightarrow> valid_tag pr t"
  by (auto simp add: getValidTags_def Let_def set_sort_with split: if_splits)

text \<open>
  C5. The claim fails: the tags \<open>v1\<close> and \<open>v1.0.0\<close> both enter the catalog under the name
  \<open>v1.0.0\<close>, side by side, and neither is above the other.
\<close>

theorem catalog_tie_counterexample:
  "getValidTags [One (Lit CHR ''v'')] False ''MAJOR.MINOR.PATCH''
     (repository [\<lparr>name = ''v1'', sha = ''s1''\<rparr>, \<lparr>name = ''v1.0.0'', sha = ''s2''\<rparr>] None)
     = [\<lparr>name = ''v1.0.0'', sha = ''s1''\<rparr>, \<lparr>name = ''v1.0.0'', sha = ''s2''\<rparr>] \<and>
   \<not> above [One (Lit CHR ''v'')] \<lparr>name = ''v1.0.0'', sha = ''s1''\<rparr>
         \<lparr>name = ''v1.0.0'', sha = ''s2''\<rparr>"
  by code_simp

text \<open>
  C5, amended. For every raw tag list, prefix pattern and version format, the catalog that
  \<open>getValidTags\<close> produces is in descending order of precedence, where entries of the same
  precedence may follow each other: no entry is below a later one. Every entry matches the
  prefix pattern and is a valid version once the prefix is removed.
\<close>

theorem catalog_descending_and_valid:
  "sorted_wrt (not_below pr) (getValidTags pr fetch fmt ext) \<and>
   (\<forall>t \<in> set (getValidTags pr fetch fmt ext). valid_tag pr t)"
proof -
  let ?cat = "getValidTags pr fetch fmt ext"
  define xs where "xs = (if fmt \<noteq> []
      then map (\<lambda>t. t\<lparr>name := convertVersionFormat (name t) ''MAJOR.MINOR.PATCH''\<rparr>)
             (listTags ext fetch)
      else listTags ext fetch)"
  have cat: "?cat = sort_with (tag_rcompare pr) (filter (valid_tag pr) xs)"
    by (simp only: getValidTags_def Let_def xs_def)
  have "sorted_wrt (\<lambda>a b. tag_rcompare pr a b \<le> 0)
          (sort_with (tag_rcompare pr) (filter (valid_tag pr) xs))"
  proof (rule sorted_sort_with[where A = "{t. valid_tag pr t}"])
    show "\<And>a b. a \<in> {t. valid_tag pr t} \<Longrightarrow> b \<in> {t. valid_tag pr t}
            \<Longrightarrow> tag_rcompare pr a b \<le> 0 \<or> tag_rcompare pr b a \<le> 0"
      by (simp add: tag_rcompare_total)
    show "\<And>a b c. a \<in> {t. valid_tag pr t} \<Longrightarrow> b \<in> {t. valid_tag pr t}
            \<Longrightarrow> c \<in> {t. valid_tag pr t} \<Longrightarrow> tag_rcompare pr a b \<le> 0
            \<Longrightarrow> tag_rcompare pr b c \<le> 0 \<Longrightarrow> tag_rcompare pr a c \<le> 0"
      by (simp, rule tag_rcompare_trans)
    show "set (filter (valid_tag pr) xs) \<subseteq> {t. valid_tag pr t}" by auto
  qed
  then have s: "sorted_wrt (\<lambda>a b. tag_rcompare pr a b \<le> 0) ?cat" by (simp add: cat)
  have v: "\<forall>t \<in> set ?cat. valid_tag pr t" using set_getValidTags by blast
  have "sorted_wrt (not_below pr) ?cat"
  proof (rule sorted_wrt_mono_rel[OF _ s])
    fix a b assume "a \<in> set ?cat" "b \<in> set ?cat" "tag_rcompare pr a b \<le> 0"
    with v show "not_below pr a b" by (simp add: tag_rcompare_not_below)
  qed
  with v show ?thesis by simp
qed

theorem catalog_descending_and_valid_witness:
  "getValidTags [One (Lit CHR ''v'')] False ''MAJOR.MINOR.PATCH''
     (repository [\<lparr>name = ''junk'', sha = ''s0''\<rparr>, \<lparr>name = ''v1.0.0'', sha = ''s1''\<rparr>,
                  \<lparr>name = ''v2.0.0-rc.1'', sha = ''s2''\<rparr>, \<lparr>name = ''v2.0'', sha = ''s3''\<rparr>] None)
     = [\<lparr>name = ''v2.0.0'', sha = ''s3''\<rparr>, \<lparr>name = ''v2.0.0-rc.1'', sha = ''s2''\<rparr>,
        \<lparr>name = ''v1.0.0'', sha = ''s1''\<rparr>] \<and>
   sorted_wrt (not_below [One (Lit CHR ''v'')])
     [\<lparr>name = ''v2.0.0'', sha = ''s3''\<rparr>, \<lparr>name = ''v2.0.0-rc.1'', sha = ''s2''\<rparr>,
      \<lparr>name = ''v1.0.0'', sha = ''s1''\<rparr>] \<and>
   list_all (valid_tag [One (Lit CHR ''v'')])
     [\<lparr>name = ''v2.0.0'', sha = ''s3''\<rparr>, \<lparr>name = ''v2.0.0-rc.1'', sha = ''s2''\<rparr>,
      \<lparr>name = ''v1.0.0'', sha = ''s1''\<rparr>]"
proof -
  have e: "getValidTags [One (Lit CHR ''v'')] False ''MAJOR.MINOR.PATCH''
     (repository [\<lparr>name = ''junk'', sha = ''s0''\<rparr>, \<lparr>name = ''v1.0.0'', sha = ''s1''\<rparr>,
                  \<lparr>name = ''v2.0.0-rc.1'', sha = ''s2''\<rparr>, \<lparr>name = ''v2.0'', sha = ''s3''\<rparr>] None)
     = [\<lparr>name = ''v2.0.0'', sha = ''s3''\<rparr>, \<lparr>name = ''v2.0.0-rc.1'', sha = ''s2''\<rparr>,
        \<lparr>name = ''v1.0.0'', sha = ''s1''\<rparr>]"
    by code_simp
  from catalog_descending_and_valid[of "[One (Lit CHR ''v'')]" False "''MAJOR.MINOR.PATCH''"
      "repository [\<lparr>name = ''junk'', sha = ''s0''\<rparr>, \<lparr>name = ''v1.0.0'', sha = ''s1''\<rparr>,
                  \<lparr>name = ''v2.0.0-rc.1'', sha = ''s2''\<rparr>, \<lparr>name = ''v2.0'', sha = ''s3''\<rparr>] None"]
  show ?thesis unfolding e by (simp add: list_all_iff)
qed

section \<open>Properties of the previous version selector\<close>

lemma find_index_Some:
  "find_index P xs = Some i \<Longrightarrow> i < length xs \<and> P (xs ! i) \<and> (\<forall>j < i. \<not> P (xs ! j))"
proof (induction xs arbitrary: i)
  case Nil
  then show ?case by simp
next
  case (Cons x xs)
  show ?case
  proof (cases "P x")
    case True
    with Cons.prems show ?thesis by simp
  next
    case False
    with Cons.prems obtain k where k: "find_index P xs = Some k" "i = Suc k" by auto
    from Cons.IH[OF k(1)] have IH: "k < length xs" "P (xs ! k)" "\<forall>j < k. \<not> P (xs ! j)"
      by simp_all
    have "\<forall>j < Suc k. \<not> P ((x # xs) ! j)"
    proof (intro allI impI)
      fix j assume "j < Suc k"
      with False IH(3) show "\<not> P ((x # xs) ! j)" by (cases j) simp_all
    qed
    with IH k show ?thesis by simp
  qed
qed

lemma find_index_None: "find_index P xs = None \<longleftrightarrow> list_all (\<lambda>x. \<not> P x) xs"
  by (induction xs) auto

lemma alnum_hyphen_literal:
  "is_alnum_hyphen c \<Longrightarrow> \<not> re_meta c \<and> c \<noteq> CHR ''*'' \<and> c \<noteq> CHR ''.''"
  by (auto simp add: is_alnum_hyphen_def re_meta_def)

lemma compile_literal:
  "list_all is_alnum_hyphen s \<Longrightarrow> compile s = Some (map (\<lambda>c. One (Lit c)) s)"
proof (induction s)
  case Nil
  then show ?case by simp
next
  case (Cons c s)
  then have c: "\<not> re_meta c" "c \<noteq> CHR ''.''" and IH: "compile s = Some (map (\<lambda>c. One (Lit c)) s)"
    using alnum_hyphen_literal[of c] by simp_all
  show ?case
  proof (cases s)
    case Nil
    with c show ?thesis by simp
  next
    case (Cons d s')
    with Cons.prems have "d \<noteq> CHR ''*''" using alnum_hyphen_literal[of d] by simp
    with c IH Cons show ?thesis by simp
  qed
qed

lemma match_here_literal:
  "match_here (map (\<lambda>c. One (Lit c)) p) s
     = (if starts_with p s then Some (drop (length p) s) else None)"
proof (induction p arbitrary: s)
  case Nil
  then show ?case by (simp add: starts_with_def)
next
  case (Cons c p)
  then show ?case by (cases s) (auto simp add: starts_with_def atom_ok_def)
qed

lemma search_literal: "search (map (\<lambda>c. One (Lit c)) p) s = str_includes p s"
  by (induction s) (simp_all add: match_here_literal starts_with_def)

text \<open>
  C6. The claim fails: for the identifier \<open>1\<close> the tag \<open>v1.0.0-rc.0\<close> is returned, whose
  pre-release component \<open>rc.0\<close> does not contain the identifier; the \<open>1\<close> that line 138 finds
  is the major version.
\<close>

theorem identifier_outside_prerelease_counterexample:
  "getLatestPrereleaseTag [\<lparr>name = ''v1.0.0-rc.0'', sha = ''s1''\<rparr>] ''1'' [One (Lit CHR ''v'')]
     = Inr (Some 0) \<and>
   prerelease_text (strip_prefix [One (Lit CHR ''v'')] ''v1.0.0-rc.0'') = ''rc.0'' \<and>
   \<not> str_includes ''1'' ''rc.0''"
  by code_simp

text \<open>
  C6, amended. For every catalog and every identifier made of letters, digits and hyphens
  (line 273 lets no other character through), \<open>getLatestPrereleaseTag\<close> returns the first
  entry that has a pre-release component and whose version, the prefix removed, contains
  the identifier anywhere in its text; it returns nothing when there is no such entry.
\<close>

theorem latest_prerelease_tag_mentions_identifier:
  assumes "list_all is_alnum_hyphen identifier"
  shows "\<exists>found. getLatestPrereleaseTag tags identifier pr = Inr found \<and>
     (case found of
        None \<Rightarrow> list_all (\<lambda>t. \<not> mentions identifier pr t) tags
      | Some i \<Rightarrow> i < length tags \<and> mentions identifier pr (tags ! i)
                  \<and> (\<forall>j < i. \<not> mentions identifier pr (tags ! j)))"
proof (cases "filter (prerelease_tag pr) tags = []")
  case True
  then have "list_all (\<lambda>t. \<not> prerelease_tag pr t) tags"
    by (simp add: filter_empty_conv list_all_iff)
  then have "list_all (\<lambda>t. \<not> mentions identifier pr t) tags"
    by (simp add: list_all_iff mentions_def)
  with True show ?thesis by (simp add: getLatestPrereleaseTag_def)
next
  case False
  let ?P = "\<lambda>t. prerelease_tag pr t
                \<and> search (map (\<lambda>c. One (Lit c)) identifier) (strip_prefix pr (name t))"
  from False compile_literal[OF assms]
  have g: "getLatestPrereleaseTag tags identifier pr = Inr (find_index ?P tags)"
    by (simp add: getLatestPrereleaseTag_def)
  show ?thesis
  proof (cases "find_index ?P tags")
    case None
    then have "list_all (\<lambda>t. \<not> ?P t) tags" by (simp only: find_index_None)
    then have "list_all (\<lambda>t. \<not> mentions identifier pr t) tags"
      by (simp add: mentions_def search_literal)
    with g None show ?thesis by simp
  next
    case (Some i)
    from find_index_Some[OF Some]
    have "i < length tags \<and> ?P (tags ! i) \<and> (\<forall>j < i. \<not> ?P (tags ! j))" .
    then have "i < length tags \<and> mentions identifier pr (tags ! i)
                 \<and> (\<forall>j < i. \<not> mentions identifier pr (tags ! j))"
      by (simp add: mentions_def search_literal)
    with g Some show ?thesis by simp
  qed
qed

theorem latest_prerelease_tag_mentions_identifier_witness:
  "list_all is_alnum_hyphen ''beta'' \<and>
   getLatestPrereleaseTag
     [\<lparr>name = ''v2.0.0-rc.1'', sha = ''s3''\<rparr>, \<lparr>name = ''v1.1.0-beta.2'', sha = ''s2''\<rparr>,
      \<lparr>name = ''v1.1.0-beta.1'', sha = ''s1''\<rparr>] ''beta'' [One (Lit CHR ''v'')] = Inr (Some 1) \<and>
   mentions ''beta'' [One (Lit CHR ''v'')] \<lparr>name = ''v1.1.0-beta.2'', sha = ''s2''\<rparr>"
proof -
  have h: "list_all is_alnum_hyphen ''beta''" by code_simp
  have e: "getLatestPrereleaseTag
     [\<lparr>name = ''v2.0.0-rc.1'', sha = ''s3''\<rparr>, \<lparr>name = ''v1.1.0-beta.2'', sha = ''s2''\<rparr>,
      \<lparr>name = ''v1.1.0-beta.1'', sha = ''s1''\<rparr>] ''beta'' [One (Lit CHR ''v'')] = Inr (Some 1)"
    by code_simp
  from latest_prerelease_tag_mentions_identifier[OF h,
      of "[\<lparr>name = ''v2.0.0-rc.1'', sha = ''s3''\<rparr>, \<lparr>name = ''v1.1.0-beta.2'', sha = ''s2''\<rparr>,
           \<lparr>name = ''v1.1.0-beta.1'', sha = ''s1''\<rparr>]" "[One (Lit CHR ''v'')]"]
  show ?thesis unfolding e using h by simp
qed

section \<open>Properties of a run\<close>

lemma catalog_finish [simp]:
  "catalog (finish inp ext cr isRel isPre st lt outs commits v) = entries st"
  by (simp add: finish_def Let_def)

lemma stop_finish:
  "stop (finish inp ext cr isRel isPre st lt outs commits v)
     \<in> {Not_a_tag_branch, Tag_exists, Dry_run, Tagged}"
  by (simp add: finish_def Let_def)

lemma outputs_finish:
  "outputs (finish inp ext cr isRel isPre st lt outs commits v) ''new_version''
     = Some (convertVersionFormat v (version_format inp))"
  "outputs (finish inp ext cr isRel isPre st lt outs commits v) ''new_tag''
     = Some (convertVersionFormat (tag_prefix inp @ convertVersionFormat v (version_format inp))
               (version_format inp))"
  "outputs (finish inp ext cr isRel isPre st lt outs commits v) ''changelog'' \<noteq> None"
  by (simp_all add: finish_def Let_def)

lemma finish_other_branch:
  "stop (finish inp ext cr False False st lt outs commits v) = Not_a_tag_branch"
  "created (finish inp ext cr False False st lt outs commits v) = None"
  by (simp_all add: finish_def Let_def)

lemma ended_early_failed_run:
  "outs ''new_version'' = None \<Longrightarrow> outs ''new_tag'' = None \<Longrightarrow> outs ''changelog'' = None
     \<Longrightarrow> ended_early (failed_run msg outs tags)"
  by (simp add: ended_early_def failed_run_def)

lemma catalog_failed_run [simp]: "catalog (failed_run msg outs tags) = tags"
  by (simp add: failed_run_def)

lemma resolve_bump_cases:
  "ended_early (resolve_bump inp ext cr isRel isPre isPrerel ident st lt pt pv)
   \<or> (\<exists>outs commits v. resolve_bump inp ext cr isRel isPre isPrerel ident st lt pt pv
          = finish inp ext cr isRel isPre st lt outs commits v)"
proof -
  define outs where
    "outs = [''previous_version'' \<mapsto> sv_version pv, ''previous_tag'' \<mapsto> name (deref st pt)]"
  define commits where "commits = getCommits ext (sha (deref st pt)) cr"
  define bump where "bump = analyzeCommits ext (custom_release_rules inp) commits"
  define skip where "skip \<longleftrightarrow> falsy bump \<and> (if isPrerel then default_prerelease_bump inp = ''false''
                            else default_bump inp = ''false'')"
  define releaseType where "releaseType = releaseTypeOf isPrerel (default_bump inp)
      (default_prerelease_bump inp)
      (promote (promote_patch_to_minor inp)
         (if isPrerel \<and> falsy bump then Some (default_prerelease_bump inp) else bump))
      (sv_prerelease pv \<noteq> [])"
  define outs' where
    "outs' = outs(''release_type'' \<mapsto> (case releaseType of None \<Rightarrow> [] | Some r \<Rightarrow> r))"
  have o: "outs ''new_version'' = None" "outs ''new_tag'' = None" "outs ''changelog'' = None"
    "outs' ''new_version'' = None" "outs' ''new_tag'' = None" "outs' ''changelog'' = None"
    by (simp_all add: outs_def outs'_def)
  have unfold: "resolve_bump inp ext cr isRel isPre isPrerel ident st lt pt pv =
      (if skip then \<lparr>outputs = outs, stop = No_bump, created = None, catalog = entries st\<rparr>
       else case semver_inc ext pv releaseType ident of
              None \<Rightarrow> failed_run ''Could not increment version.'' outs' (entries st)
            | Some iv \<Rightarrow>
                if iv = [] then failed_run ''Could not increment version.'' outs' (entries st)
                else if \<not> valid iv
                then failed_run (iv @ '' is not a valid semver.'') outs' (entries st)
                else finish inp ext cr isRel isPre st lt outs' commits iv)"
    unfolding resolve_bump_def Let_def outs_def commits_def bump_def skip_def releaseType_def
      outs'_def by (rule refl)
  show ?thesis
  proof (cases skip)
    case True
    then show ?thesis by (simp add: unfold ended_early_def o)
  next
    case False
    show ?thesis
    proof (cases "semver_inc ext pv releaseType ident")
      case None
      with False show ?thesis by (simp add: unfold ended_early_failed_run o)
    next
      case (Some iv)
      show ?thesis
      proof (cases "iv = [] \<or> \<not> valid iv")
        case True
        with False Some show ?thesis by (auto simp add: unfold ended_early_failed_run o)
      next
        case ok: False
        with False Some have "resolve_bump inp ext cr isRel isPre isPrerel ident st lt pt pv
            = finish inp ext cr isRel isPre st lt outs' commits iv"
          by (simp add: unfold)
        then show ?thesis by blast
      qed
    qed
  qed
qed

lemma catalog_resolve_bump [simp]:
  "catalog (resolve_bump inp ext cr isRel isPre isPrerel ident st lt pt pv) = entries st"
  unfolding resolve_bump_def Let_def by (simp split: option.splits)

lemma entries_set_name:
  "entries (set_name st (Entry i) n) = (entries st)[i := (entries st ! i)\<lparr>name := n\<rparr>]"
  "entries (set_name st Synthetic n) = entries st"
  by (simp_all add: set_name_def)

lemma bump_version_cases:
  assumes "bump_version inp ext cr isRel isPre isPrerel ident pr st lt lpt = Inr r"
  shows "ended_early r \<or> (\<exists>st' outs commits v. r = finish inp ext cr isRel isPre st' lt outs commits v)"
proof -
  from assms obtain pt where
    "choose_previous isRel pr st lt lpt = Inr pt" by (auto simp add: bump_version_def split: sum.splits)
  with assms consider
      (unparsed) tags where "r = failed_run ''Could not parse previous tag.'' Map.empty tags"
    | (parsed) st' pv where "r = resolve_bump inp ext cr isRel isPre isPrerel ident st' lt pt pv"
    by (auto simp add: bump_version_def Let_def split: option.splits)
  then show ?thesis
  proof cases
    case unparsed
    then show ?thesis by (simp add: ended_early_failed_run)
  next
    case parsed
    with resolve_bump_cases[of inp ext cr isRel isPre isPrerel ident st' lt pt pv]
    show ?thesis by metis
  qed
qed

lemma choose_previous_cases:
  assumes "choose_previous isRel pr st lt lpt = Inr pt"
  shows "pt = lt \<or> lpt = Some (case pt of Entry i \<Rightarrow> i | Synthetic \<Rightarrow> 0) \<and> pt \<noteq> Synthetic"
  using assms by (auto simp add: choose_previous_def split: option.splits if_splits sum.splits)

lemma getLatestTag_range:
  "getLatestTag tags pr = Synthetic \<or> (\<exists>k < length tags. getLatestTag tags pr = Entry k)"
proof (cases "find_index (release_tag pr) tags")
  case None
  then show ?thesis by (simp add: getLatestTag_def)
next
  case (Some k)
  from find_index_Some[OF Some] Some show ?thesis by (simp add: getLatestTag_def)
qed

lemma getLatestPrereleaseTag_range:
  assumes "getLatestPrereleaseTag tags ident pr = Inr (Some i)"
  shows "i < length tags"
proof -
  from assms obtain P where "find_index P tags = Some i"
    by (auto simp add: getLatestPrereleaseTag_def split: if_splits option.splits)
  from find_index_Some[OF this] show ?thesis by simp
qed

lemma tag_run_cases:
  assumes "tag_run inp ext ref cr isRel isPre = Inr r"
  shows "ended_early r \<or> (\<exists>st lt outs commits v. r = finish inp ext cr isRel isPre st lt outs commits v)"
proof -
  from assms obtain pr where pr: "compile (tag_prefix inp) = Some pr"
    by (auto simp add: tag_run_def Let_def split: option.splits)
  from assms pr obtain lpt where
    "getLatestPrereleaseTag (getValidTags pr (test_true (fetch_all_tags inp)) (version_format inp) ext)
       (sanitize (if append_to_pre_release_tag inp \<noteq> [] then append_to_pre_release_tag inp
                  else getBranchFromRef ref)) pr = Inr lpt"
    by (auto simp add: tag_run_def Let_def split: sum.splits)
  with assms pr consider
      (custom) st lt outs commits v where "r = finish inp ext cr isRel isPre st lt outs commits v"
    | (bump) isPrerel ident st lt where
        "bump_version inp ext cr isRel isPre isPrerel ident pr st lt lpt = Inr r"
    by (auto simp add: tag_run_def Let_def split: if_splits)
  then show ?thesis
  proof cases
    case custom
    then show ?thesis by blast
  next
    case bump
    from bump_version_cases[OF this] show ?thesis by blast
  qed
qed

text \<open>
  A run that \<open>main\<close> completes either ended early, or is the run of lines 436-484 on the
  branch flags of lines 260-265.
\<close>

lemma main_cases:
  assumes "main inp e ext = Inr r"
  shows "ended_early r
         \<or> (\<exists>ref cr isRel isPre st lt outs commits v.
               GITHUB_REF e = Some ref
               \<and> branch_in (release_branches inp) ref = Inr isRel
               \<and> branch_in (pre_release_branches inp) ref = Inr isPre
               \<and> r = finish inp ext cr isRel isPre st lt outs commits v)"
proof (cases "\<exists>msg. r = failed_run msg Map.empty []")
  case True
  then show ?thesis by (auto simp add: ended_early_failed_run)
next
  case False
  with assms obtain ref cr isRel isPre where
    m: "GITHUB_REF e = Some ref" "branch_in (release_branches inp) ref = Inr isRel"
      "branch_in (pre_release_branches inp) ref = Inr isPre"
      "tag_run inp ext ref cr isRel isPre = Inr r"
    by (auto simp add: main_def split: option.splits if_splits sum.splits)
  from tag_run_cases[OF m(4)] m(1-3) show ?thesis by blast
qed

lemma outputs_finish_previous:
  "outputs (finish inp ext cr isRel isPre st lt outs commits v) ''previous_tag''
     = outs ''previous_tag''"
  by (simp add: finish_def Let_def)

lemma outputs_resolve_bump_previous:
  "outputs (resolve_bump inp ext cr isRel isPre isPrerel ident st lt pt pv) ''previous_tag''
     = Some (name (deref st pt))"
proof -
  define outs where
    "outs = [''previous_version'' \<mapsto> sv_version pv, ''previous_tag'' \<mapsto> name (deref st pt)]"
  define commits where "commits = getCommits ext (sha (deref st pt)) cr"
  define bump where "bump = analyzeCommits ext (custom_release_rules inp) commits"
  define skip where "skip \<longleftrightarrow> falsy bump \<and> (if isPrerel then default_prerelease_bump inp = ''false''
                            else default_bump inp = ''false'')"
  define releaseType where "releaseType = releaseTypeOf isPrerel (default_bump inp)
      (default_prerelease_bump inp)
      (promote (promote_patch_to_minor inp)
         (if isPrerel \<and> falsy bump then Some (default_prerelease_bump inp) else bump))
      (sv_prerelease pv \<noteq> [])"
  define outs' where
    "outs' = outs(''release_type'' \<mapsto> (case releaseType of None \<Rightarrow> [] | Some r \<Rightarrow> r))"
  have o: "outs ''previous_tag'' = Some (name (deref st pt))"
    "outs' ''previous_tag'' = Some (name (deref st pt))"
    by (simp_all add: outs_def outs'_def)
  have unfold: "resolve_bump inp ext cr isRel isPre isPrerel ident st lt pt pv =
      (if skip then \<lparr>outputs = outs, stop = No_bump, created = None, catalog = entries st\<rparr>
       else case semver_inc ext pv releaseType ident of
              None \<Rightarrow> failed_run ''Could not increment version.'' outs' (entries st)
            | Some iv \<Rightarrow>
                if iv = [] then failed_run ''Could not increment version.'' outs' (entries st)
                else if \<not> valid iv
                then failed_run (iv @ '' is not a valid semver.'') outs' (entries st)
                else finish inp ext cr isRel isPre st lt outs' commits iv)"
    unfolding resolve_bump_def Let_def outs_def commits_def bump_def skip_def releaseType_def
      outs'_def by (rule refl)
  show ?thesis
  proof (cases skip)
    case True
    then show ?thesis by (simp add: unfold o)
  next
    case False
    show ?thesis
    proof (cases "semver_inc ext pv releaseType ident")
      case None
      with False show ?thesis by (simp add: unfold failed_run_def o)
    next
      case (Some iv)
      with False show ?thesis
        by (simp add: unfold failed_run_def outputs_finish_previous o)
    qed
  qed
qed

lemma name_deref_set_name:
  "i < length (entries st) \<Longrightarrow> name (deref (set_name st (Entry i) n) (Entry i)) = n"
  "name (deref (set_name st Synthetic n) Synthetic) = n"
  by (simp_all add: deref_def set_name_def)

lemma bump_version_previous:
  assumes "bump_version inp ext cr isRel isPre isPrerel ident pr st lt lpt = Inr r"
  shows "\<exists>pt. choose_previous isRel pr st lt lpt = Inr pt
           \<and> catalog r = entries (set_name st pt
                 (convertVersionFormat (name (deref st pt)) (version_format inp)))
           \<and> (parse (strip_prefix pr (name (deref st pt))) \<noteq> None \<longrightarrow>
                outputs r ''previous_tag''
                  = Some (name (deref (set_name st pt
                       (convertVersionFormat (name (deref st pt)) (version_format inp))) pt)))"
proof -
  from assms obtain pt where pt: "choose_previous isRel pr st lt lpt = Inr pt"
    by (auto simp add: bump_version_def split: sum.splits)
  define st' where "st' = set_name st pt
      (convertVersionFormat (name (deref st pt)) (version_format inp))"
  show ?thesis
  proof (cases "parse (strip_prefix pr (name (deref st pt)))")
    case None
    with assms pt have "r = failed_run ''Could not parse previous tag.'' Map.empty (entries st')"
      by (simp add: bump_version_def Let_def st'_def)
    with pt None show ?thesis by (simp add: st'_def)
  next
    case (Some pv)
    with assms pt have "r = resolve_bump inp ext cr isRel isPre isPrerel ident st' lt pt pv"
      by (simp add: bump_version_def Let_def st'_def)
    with pt show ?thesis by (simp add: outputs_resolve_bump_previous st'_def)
  qed
qed

lemma catalog_entry_parses:
  assumes "i < length (getValidTags pr fetch fmt ext)"
  shows "parse (strip_prefix pr (name (getValidTags pr fetch fmt ext ! i))) \<noteq> None"
proof -
  from assms have "getValidTags pr fetch fmt ext ! i \<in> set (getValidTags pr fetch fmt ext)"
    by simp
  from set_getValidTags[OF this] show ?thesis by (simp add: valid_tag_def valid_def)
qed

lemma sha_renamed: "map sha (renamed fmt tags i) = map sha tags"
proof (cases "i < length tags")
  case True
  then show ?thesis by (simp add: renamed_def map_update list_update_same_conv)
next
  case False
  then have "length tags \<le> i" by simp
  then have "tags[i := (tags ! i)\<lparr>name := convertVersionFormat (name (tags ! i)) fmt\<rparr>] = tags"
    by (rule list_update_beyond)
  then show ?thesis by (simp add: renamed_def)
qed

lemma name_renamed:
  "i < length tags \<Longrightarrow> name (renamed fmt tags i ! i) = convertVersionFormat (name (tags ! i)) fmt"
  by (simp add: renamed_def)

text \<open>
  C8. With a custom version format the guard of lines 474-477 does not recognise an existing
  tag. Under \<open>version_format = MAJOR.MINOR\<close> the repository has the tags \<open>v1.3\<close> and
  \<open>v1.3-beta.0\<close>, both valid and both in the catalog; on the pre-release branch \<open>beta\<close> the
  run computes \<open>new_tag = v1.3-beta.0\<close>, the name of the second tag, and calls \<open>createTag\<close>
  with it: line 64 has stored that tag under the canonical name \<open>v1.3.0-beta.0\<close>, and line
  474 compares the name in the custom format with the canonical names. The same happens
  with \<open>custom_tag = 1.1\<close> and the tag \<open>v1.1\<close>, while under the default format the run with
  \<open>custom_tag = 1.1.0\<close> and the tag \<open>v1.1.0\<close> stops at the guard.
\<close>

theorem custom_format_existing_tag_created:
  "getValidTags [One (Lit CHR ''v'')] False ''MAJOR.MINOR''
     (repository [\<lparr>name = ''v1.3'', sha = ''s2''\<rparr>, \<lparr>name = ''v1.3-beta.0'', sha = ''s1''\<rparr>] None)
     = [\<lparr>name = ''v1.3.0'', sha = ''s2''\<rparr>, \<lparr>name = ''v1.3.0-beta.0'', sha = ''s1''\<rparr>] \<and>
   map_sum id (\<lambda>r. (outputs r ''new_tag'', map name (catalog r), stop r, created r))
     (main (action_defaults\<lparr>version_format := ''MAJOR.MINOR'', pre_release_branches := ''beta''\<rparr>)
        (on_ref ''refs/heads/beta'')
        (repository [\<lparr>name = ''v1.3'', sha = ''s2''\<rparr>, \<lparr>name = ''v1.3-beta.0'', sha = ''s1''\<rparr>]
           None))
     = Inr (Some ''v1.3-beta.0'', [''v1.3'', ''v1.3.0-beta.0''], Tagged,
            Some (''v1.3-beta.0'', False, ''abc123'')) \<and>
   map_sum id (\<lambda>r. (outputs r ''new_tag'', map name (catalog r), stop r, created r))
     (main (action_defaults\<lparr>version_format := ''MAJOR.MINOR'', custom_tag := ''1.1''\<rparr>)
        (on_ref ''refs/heads/main'')
        (repository [\<lparr>name = ''v1.1'', sha = ''s1''\<rparr>] None))
     = Inr (Some ''v1.1'', [''v1.1.0''], Tagged, Some (''v1.1'', False, ''abc123'')) \<and>
   map_sum id (\<lambda>r. (outputs r ''new_tag'', map name (catalog r), stop r, created r))
     (main (action_defaults\<lparr>custom_tag := ''1.1.0''\<rparr>) (on_ref ''refs/heads/main'')
        (repository [\<lparr>name = ''v1.1.0'', sha = ''s1''\<rparr>] None))
     = Inr (Some ''v1.1.0'', [''v1.1.0''], Tag_exists, None)"
  by code_simp

theorem custom_format_existing_tag_created_witness:
  "map_sum id created
     (main (action_defaults\<lparr>version_format := ''MAJOR.MINOR'', pre_release_branches := ''beta''\<rparr>)
        (on_ref ''refs/heads/beta'')
        (repository [\<lparr>name = ''v1.3'', sha = ''s2''\<rparr>, \<lparr>name = ''v1.3-beta.0'', sha = ''s1''\<rparr>]
           None))
     = Inr (Some (''v1.3-beta.0'', False, ''abc123'')) \<and>
   ''v1.3-beta.0'' \<in> set [''v1.3'', ''v1.3-beta.0'']"
proof -
  from custom_format_existing_tag_created
  show ?thesis
    by (cases "main (action_defaults\<lparr>version_format := ''MAJOR.MINOR'',
                       pre_release_branches := ''beta''\<rparr>) (on_ref ''refs/heads/beta'')
        (repository [\<lparr>name = ''v1.3'', sha = ''s2''\<rparr>, \<lparr>name = ''v1.3-beta.0'', sha = ''s1''\<rparr>]
           None)") auto
qed

text \<open>
  C10. The claim fails: on the branch \<open>feature\<close>, which matches neither list, with
  \<open>default_bump = false\<close> and no bump found by the analyser, the run ends at line 379 without
  a failure and without the outputs \<open>new_version\<close>, \<open>new_tag\<close> and \<open>changelog\<close>.
\<close>

theorem no_bump_skip_counterexample:
  "branch_in (release_branches (action_defaults\<lparr>pre_release_branches := ''beta'',
       default_bump := ''false''\<rparr>)) ''refs/heads/feature'' = Inr False \<and>
   branch_in (pre_release_branches (action_defaults\<lparr>pre_release_branches := ''beta'',
       default_bump := ''false''\<rparr>)) ''refs/heads/feature'' = Inr False \<and>
   map_sum id (\<lambda>r. (stop r, outputs r ''new_version'', outputs r ''new_tag'',
                      outputs r ''changelog''))
     (main (action_defaults\<lparr>pre_release_branches := ''beta'', default_bump := ''false''\<rparr>)
        (on_ref ''refs/heads/feature'')
        (repository [\<lparr>name = ''v1.0.0'', sha = ''s1''\<rparr>] None))
     = Inr (No_bump, None, None, None)"
  by code_simp

text \<open>
  C10, amended. In every run on a branch that matches neither \<open>release_branches\<close> nor
  \<open>pre_release_branches\<close>, that does not fail and that is not ended by the skip of lines
  374-380 (no bump found and \<open>default_bump\<close> set to \<open>false\<close>), the outputs \<open>new_version\<close>,
  \<open>new_tag\<close> and \<open>changelog\<close> are set before the run ends at lines 467-472, and \<open>createTag\<close>
  is not called.
\<close>

theorem outputs_set_on_other_branches:
  assumes "main inp e ext = Inr r"
    and "GITHUB_REF e = Some ref"
    and "branch_in (release_branches inp) ref = Inr False"
    and "branch_in (pre_release_branches inp) ref = Inr False"
    and "\<forall>msg. stop r \<noteq> Failed msg"
    and "stop r \<noteq> No_bump"
  shows "outputs r ''new_version'' \<noteq> None \<and> outputs r ''new_tag'' \<noteq> None
         \<and> outputs r ''changelog'' \<noteq> None \<and> created r = None \<and> stop r = Not_a_tag_branch"
proof -
  from assms(5,6) have "\<not> ended_early r"
    by (auto simp add: ended_early_def split: stop.splits)
  with main_cases[OF assms(1)] assms(2-4) obtain cr st lt outs commits v where
    r: "r = finish inp ext cr False False st lt outs commits v" by auto
  show ?thesis unfolding r by (simp add: outputs_finish finish_other_branch)
qed

theorem outputs_set_on_other_branches_witness:
  "branch_in (release_branches (action_defaults\<lparr>pre_release_branches := ''beta''\<rparr>))
     ''refs/heads/feature'' = Inr False \<and>
   branch_in (pre_release_branches (action_defaults\<lparr>pre_release_branches := ''beta''\<rparr>))
     ''refs/heads/feature'' = Inr False \<and>
   map_sum id (\<lambda>r. (stop r, outputs r ''new_version'', outputs r ''new_tag'', created r))
     (main (action_defaults\<lparr>pre_release_branches := ''beta''\<rparr>) (on_ref ''refs/heads/feature'')
        (repository [\<lparr>name = ''v1.0.0'', sha = ''s1''\<rparr>] (Some ''minor'')))
     = Inr (Not_a_tag_branch, Some ''1.1.0'', Some ''v1.1.0'', None)"
proof -
  let ?inp = "action_defaults\<lparr>pre_release_branches := ''beta''\<rparr>"
  let ?m = "main ?inp (on_ref ''refs/heads/feature'')
              (repository [\<lparr>name = ''v1.0.0'', sha = ''s1''\<rparr>] (Some ''minor''))"
  have b1: "branch_in (release_branches ?inp) ''refs/heads/feature'' = Inr False"
    by code_simp
  have b2: "branch_in (pre_release_branches ?inp) ''refs/heads/feature'' = Inr False"
    by code_simp
  have g: "GITHUB_REF (on_ref ''refs/heads/feature'') = Some ''refs/heads/feature''"
    by (simp add: on_ref_def)
  have ev: "map_sum id (\<lambda>r. (stop r, outputs r ''new_version'', outputs r ''new_tag''))
      ?m = Inr (Not_a_tag_branch, Some ''1.1.0'', Some ''v1.1.0'')"
    by code_simp
  then obtain r where r: "?m = Inr r" and s: "stop r = Not_a_tag_branch"
    and o: "outputs r ''new_version'' = Some ''1.1.0''" "outputs r ''new_tag'' = Some ''v1.1.0''"
    by (cases ?m) auto
  from s have nf: "\<forall>msg. stop r \<noteq> Failed msg" and nb: "stop r \<noteq> No_bump" by simp_all
  from outputs_set_on_other_branches[OF r g b1 b2 nf nb] r s o b1 b2
  show ?thesis by simp
qed

text \<open>
  C9. The claim fails: with \<open>version_format = MAJOR.MINOR\<close> and the tag \<open>v1.2\<close>, the catalog
  that \<open>getValidTags\<close> returns holds the name \<open>v1.2.0\<close>; the entry is chosen as the previous
  tag and line 337 assigns \<open>v1.2\<close> to its name, so the catalog at the end differs.
\<close>

theorem previous_tag_renamed_counterexample:
  "compile (tag_prefix (action_defaults\<lparr>version_format := ''MAJOR.MINOR''\<rparr>))
     = Some [One (Lit CHR ''v'')] \<and>
   getValidTags [One (Lit CHR ''v'')] False ''MAJOR.MINOR''
     (repository [\<lparr>name = ''v1.2'', sha = ''s1''\<rparr>] (Some ''minor''))
     = [\<lparr>name = ''v1.2.0'', sha = ''s1''\<rparr>] \<and>
   map_sum id (\<lambda>r. (catalog r, outputs r ''previous_tag''))
     (main (action_defaults\<lparr>version_format := ''MAJOR.MINOR''\<rparr>) (on_ref ''refs/heads/main'')
        (repository [\<lparr>name = ''v1.2'', sha = ''s1''\<rparr>] (Some ''minor'')))
     = Inr ([\<lparr>name = ''v1.2'', sha = ''s1''\<rparr>], Some ''v1.2'')"
  by code_simp

text \<open>
  C9, amended. After \<open>getValidTags\<close> returns, the only step that changes the catalog is
  line 337, and it changes the entry chosen as the previous tag and nothing else: when the
  previous tag is entry \<open>i\<close> of the catalog, the catalog at the end is the computed one with
  the name of entry \<open>i\<close> replaced by its rendering in \<open>version_format\<close>, which is the value
  of the \<open>previous_tag\<close> output; when the previous tag is the synthetic \<open>0.0.0\<close> tag, or
  \<open>custom_tag\<close> is set, the catalog at the end is the computed one. In every case the
  commits of the entries, and so the length and the order of the catalog, are as computed.
\<close>

theorem catalog_changes_only_previous_name:
  assumes "main inp e ext = Inr r"
    and "GITHUB_REF e = Some ref"
    and "compile (tag_prefix inp) = Some pr"
    and "stop r \<noteq> Failed ''Missing GITHUB_REF.''"
    and "stop r \<noteq> Failed ''Missing commit_sha or GITHUB_SHA.''"
  shows "map sha (catalog r)
           = map sha (getValidTags pr (test_true (fetch_all_tags inp)) (version_format inp) ext)
         \<and> (if custom_tag inp \<noteq> []
            then catalog r
                   = getValidTags pr (test_true (fetch_all_tags inp)) (version_format inp) ext
            else \<exists>pt. previous_tag_chosen inp ext ref pr = Inr pt \<and>
                   (case pt of
                      Synthetic \<Rightarrow>
                        catalog r = getValidTags pr (test_true (fetch_all_tags inp))
                                      (version_format inp) ext
                    | Entry i \<Rightarrow>
                        i < length (getValidTags pr (test_true (fetch_all_tags inp))
                                      (version_format inp) ext)
                        \<and> catalog r = renamed (version_format inp)
                              (getValidTags pr (test_true (fetch_all_tags inp))
                                 (version_format inp) ext) i
                        \<and> outputs r ''previous_tag'' = Some (name (catalog r ! i))))"
proof -
  let ?cat = "getValidTags pr (test_true (fetch_all_tags inp)) (version_format inp) ext"
  let ?st = "\<lparr>entries = ?cat, fallback = synthetic_tag (tag_prefix inp)\<rparr>"
  let ?ident = "sanitize (if append_to_pre_release_tag inp \<noteq> [] then append_to_pre_release_tag inp
                  else getBranchFromRef ref)"
  from assms(1,2,4,5) obtain cr isRel isPre where
    rel: "branch_in (release_branches inp) ref = Inr isRel"
    and run: "tag_run inp ext ref cr isRel isPre = Inr r"
    by (auto simp add: main_def failed_run_def split: option.splits if_splits sum.splits)
  from run assms(3) obtain lpt where lpt: "getLatestPrereleaseTag ?cat ?ident pr = Inr lpt"
    by (auto simp add: tag_run_def Let_def split: sum.splits)
  show ?thesis
  proof (cases "custom_tag inp = []")
    case False
    with run assms(3) lpt have "catalog r = ?cat" by (auto simp add: tag_run_def Let_def)
    with False show ?thesis by simp
  next
    case True
    with run assms(3) lpt have b: "bump_version inp ext cr isRel isPre
        (isPrerelease isRel (isPr ref) isPre) ?ident pr ?st (getLatestTag ?cat pr) lpt = Inr r"
      by (simp add: tag_run_def Let_def)
    from bump_version_previous[OF b] obtain pt where
      pt: "choose_previous isRel pr ?st (getLatestTag ?cat pr) lpt = Inr pt"
      and c: "catalog r = entries (set_name ?st pt
                 (convertVersionFormat (name (deref ?st pt)) (version_format inp)))"
      and o: "parse (strip_prefix pr (name (deref ?st pt))) \<noteq> None \<Longrightarrow>
                outputs r ''previous_tag''
                  = Some (name (deref (set_name ?st pt
                       (convertVersionFormat (name (deref ?st pt)) (version_format inp))) pt))"
      by blast
    have chosen: "previous_tag_chosen inp ext ref pr = Inr pt"
      using rel lpt pt by (simp add: previous_tag_chosen_def Let_def)
    have shape: "case pt of
        Synthetic \<Rightarrow> catalog r = ?cat
      | Entry i \<Rightarrow> i < length ?cat \<and> catalog r = renamed (version_format inp) ?cat i
                   \<and> outputs r ''previous_tag'' = Some (name (catalog r ! i))"
    proof (cases pt)
      case Synthetic
      with c show ?thesis by (simp add: entries_set_name)
    next
      case (Entry i)
      have 1: "getLatestTag ?cat pr = Synthetic
               \<or> (\<exists>k < length (entries ?st). getLatestTag ?cat pr = Entry k)"
        using getLatestTag_range[of ?cat pr] by simp
      have 2: "\<And>j. lpt = Some j \<Longrightarrow> j < length (entries ?st)"
        using lpt getLatestPrereleaseTag_range[of ?cat ?ident pr] by simp
      from Entry choose_previous_cases[OF pt] 1 2 have i: "i < length ?cat" by auto
      from Entry c have cat: "catalog r = renamed (version_format inp) ?cat i"
        by (simp add: entries_set_name renamed_def deref_def)
      have "parse (strip_prefix pr (name (deref ?st pt))) \<noteq> None"
        using catalog_entry_parses[OF i] Entry by (simp add: deref_def)
      from o[OF this] Entry
      have "outputs r ''previous_tag''
              = Some (name (deref (set_name ?st (Entry i)
                   (convertVersionFormat (name (deref ?st (Entry i))) (version_format inp)))
                   (Entry i)))"
        by simp
      moreover have "i < length (entries ?st)" using i by simp
      ultimately have "outputs r ''previous_tag''
              = Some (convertVersionFormat (name (deref ?st (Entry i))) (version_format inp))"
        by (simp only: name_deref_set_name)
      then have "outputs r ''previous_tag''
              = Some (convertVersionFormat (name (?cat ! i)) (version_format inp))"
        by (simp add: deref_def)
      with cat i name_renamed[OF i, of "version_format inp"]
      have "outputs r ''previous_tag'' = Some (name (catalog r ! i))" by simp
      with Entry i cat show ?thesis by simp
    qed
    have "map sha (catalog r) = map sha ?cat"
      using shape by (cases pt) (simp_all add: sha_renamed)
    with True chosen shape show ?thesis by auto
  qed
qed

theorem catalog_changes_only_previous_name_witness:
  "compile (tag_prefix (action_defaults\<lparr>version_format := ''MAJOR.MINOR''\<rparr>))
     = Some [One (Lit CHR ''v'')] \<and>
   getValidTags [One (Lit CHR ''v'')] False ''MAJOR.MINOR''
     (repository [\<lparr>name = ''v1.2'', sha = ''s1''\<rparr>, \<lparr>name = ''v2.0-rc.1'', sha = ''s2''\<rparr>]
        (Some ''minor''))
     = [\<lparr>name = ''v2.0.0-rc.1'', sha = ''s2''\<rparr>, \<lparr>name = ''v1.2.0'', sha = ''s1''\<rparr>] \<and>
   previous_tag_chosen (action_defaults\<lparr>version_format := ''MAJOR.MINOR''\<rparr>)
     (repository [\<lparr>name = ''v1.2'', sha = ''s1''\<rparr>, \<lparr>name = ''v2.0-rc.1'', sha = ''s2''\<rparr>]
        (Some ''minor'')) ''refs/heads/main'' [One (Lit CHR ''v'')] = Inr (Entry 1) \<and>
   map_sum id (\<lambda>r. (catalog r, outputs r ''previous_tag'', stop r))
     (main (action_defaults\<lparr>version_format := ''MAJOR.MINOR''\<rparr>) (on_ref ''refs/heads/main'')
        (repository [\<lparr>name = ''v1.2'', sha = ''s1''\<rparr>, \<lparr>name = ''v2.0-rc.1'', sha = ''s2''\<rparr>]
           (Some ''minor'')))
     = Inr ([\<lparr>name = ''v2.0.0-rc.1'', sha = ''s2''\<rparr>, \<lparr>name = ''v1.2'', sha = ''s1''\<rparr>],
            Some ''v1.2'', Tagged)"
proof -
  let ?inp = "action_defaults\<lparr>version_format := ''MAJOR.MINOR''\<rparr>"
  let ?ext = "repository [\<lparr>name = ''v1.2'', sha = ''s1''\<rparr>, \<lparr>name = ''v2.0-rc.1'', sha = ''s2''\<rparr>]
                (Some ''minor'')"
  let ?m = "main ?inp (on_ref ''refs/heads/main'') ?ext"
  have p: "compile (tag_prefix ?inp) = Some [One (Lit CHR ''v'')]" by code_simp
  have g: "GITHUB_REF (on_ref ''refs/heads/main'') = Some ''refs/heads/main''"
    by (simp add: on_ref_def)
  have f: "custom_tag ?inp = []" "version_format ?inp = ''MAJOR.MINOR''"
    "test_true (fetch_all_tags ?inp) = False"
    by code_simp+
  have cat: "getValidTags [One (Lit CHR ''v'')] False ''MAJOR.MINOR'' ?ext
      = [\<lparr>name = ''v2.0.0-rc.1'', sha = ''s2''\<rparr>, \<lparr>name = ''v1.2.0'', sha = ''s1''\<rparr>]"
    by code_simp
  have ch: "previous_tag_chosen ?inp ?ext ''refs/heads/main'' [One (Lit CHR ''v'')] = Inr (Entry 1)"
    by code_simp
  have ren: "renamed ''MAJOR.MINOR''
      [\<lparr>name = ''v2.0.0-rc.1'', sha = ''s2''\<rparr>, \<lparr>name = ''v1.2.0'', sha = ''s1''\<rparr>] 1
      = [\<lparr>name = ''v2.0.0-rc.1'', sha = ''s2''\<rparr>, \<lparr>name = ''v1.2'', sha = ''s1''\<rparr>]"
    by code_simp
  have "map_sum id stop ?m = Inr Tagged" by code_simp
  then obtain r where r: "?m = Inr r" and s: "stop r = Tagged" by (cases ?m) auto
  from s have n1: "stop r \<noteq> Failed ''Missing GITHUB_REF.''"
    and n2: "stop r \<noteq> Failed ''Missing commit_sha or GITHUB_SHA.''" by simp_all
  have ren': "renamed ''MAJOR.MINOR''
      [\<lparr>name = ''v2.0.0-rc.1'', sha = ''s2''\<rparr>, \<lparr>name = ''v1.2.0'', sha = ''s1''\<rparr>] (Suc 0)
      = [\<lparr>name = ''v2.0.0-rc.1'', sha = ''s2''\<rparr>, \<lparr>name = ''v1.2'', sha = ''s1''\<rparr>]"
    by code_simp
  have "catalog r = [\<lparr>name = ''v2.0.0-rc.1'', sha = ''s2''\<rparr>, \<lparr>name = ''v1.2'', sha = ''s1''\<rparr>]
        \<and> outputs r ''previous_tag'' = Some ''v1.2''"
    using catalog_changes_only_previous_name[OF r g p n1 n2]
    unfolding f cat ch by (simp add: ren ren')
  with p cat ch r s show ?thesis by simp
qed

text \<open>
  C4. A pull-request ref can be classified as a release branch and tagged: with
  \<open>release_branches = .*\<close>, one of the examples of \<open>action.yml\<close>, the ref
  \<open>refs/pull/7/merge\<close> is a pull request, line 260 makes it a release branch (only line 267,
  for pre-release branches, looks at \<open>isPullRequest\<close>), and the run calls \<open>createTag\<close>.
\<close>

theorem pull_request_tagged_as_release:
  "isPr ''refs/pull/7/merge'' \<and>
   branch_in (release_branches (action_defaults\<lparr>release_branches := ''.*''\<rparr>))
     ''refs/pull/7/merge'' = Inr True \<and>
   map_sum id (\<lambda>r. (stop r, created r))
     (main (action_defaults\<lparr>release_branches := ''.*''\<rparr>) (on_ref ''refs/pull/7/merge'')
        (repository [\<lparr>name = ''v1.0.0'', sha = ''s1''\<rparr>] (Some ''minor'')))
     = Inr (Tagged, Some (''v1.1.0'', False, ''abc123''))"
  by code_simp

theorem pull_request_tagged_as_release_witness:
  "isPr ''refs/pull/7/merge'' \<and>
   map_sum id created
     (main (action_defaults\<lparr>release_branches := ''.*''\<rparr>) (on_ref ''refs/pull/7/merge'')
        (repository [\<lparr>name = ''v1.0.0'', sha = ''s1''\<rparr>] (Some ''minor'')))
     = Inr (Some (''v1.1.0'', False, ''abc123''))"
proof -
  from pull_request_tagged_as_release
  show ?thesis
    by (cases "main (action_defaults\<lparr>release_branches := ''.*''\<rparr>) (on_ref ''refs/pull/7/merge'')
        (repository [\<lparr>name = ''v1.0.0'', sha = ''s1''\<rparr>] (Some ''minor''))") auto
qed

section \<open>Properties of the release type selection\<close>

text \<open>
  C1. On a branch that is not a pre-release branch (so on every release branch), with
  \<open>default_bump = patch\<close> and the analysed bump \<open>major\<close>, the code selects \<open>major\<close>: line 401
  keeps the default only when its rank is the greater one, so the stronger of the two is
  chosen, not the weaker one that the claim and the comment on lines 397-399 ask for.
  \<open>promote_patch_to_minor\<close> makes no difference, \<open>major\<close> not ending in \<open>patch\<close>.
\<close>

theorem release_branch_patch_default_major_signal:
  "releaseTypeOf False ''patch'' defaultPreReleaseBump
     (promote promotePatchToMinor (Some ''major'')) prevPre = Some ''major''"
  by (simp add: releaseTypeOf_def promote_def ends_with_def bumpPriority_def)

theorem release_branch_patch_default_major_signal_witness:
  "releaseTypeOf False ''patch'' ''prerelease'' (promote ''false'' (Some ''major'')) False
     = Some ''major''"
  by (rule release_branch_patch_default_major_signal)


end
